theory Spec2Isabelle
  imports Complex_Main "HOL-Library.Sublist" "HOL-Library.Word"
begin

section \<open>The compiler host of the webpack plugin (compiler\_host.ts)\<close>

text \<open>
  \<^verbatim>\<open>WebpackCompilerHost\<close> answers the TypeScript compiler's file queries from a
  virtual filesystem: a \<^verbatim>\<open>CordHost\<close> overlay over the backing host given at
  construction, read through a \<^verbatim>\<open>SyncDelegateHost\<close>.  Every method is embedded
  below with the source's name and control flow.  File names are HOL strings, the text
  of a file is its sequence of UTF-16 code units, as JavaScript has it, and a buffer is
  its sequence of bytes.  A method that can throw returns \<open>error + 'a\<close> (\<open>Inl\<close> the
  exception), a method that can return \<^verbatim>\<open>undefined\<close> or \<^verbatim>\<open>null\<close> returns an
  option, and the mutable fields of the object are a record that the mutating methods
  return updated.
\<close>

subsection \<open>Values, exceptions and the imported interface\<close>

type_synonym Path = string
type_synonym js_string = "16 word list"
type_synonym FileBuffer = "8 word list"

text \<open>
  The exceptions of the filesystem layer, each with the path (or the text) it was raised
  with.
\<close>

datatype error =
    InvalidPathException string
  | PathIsDirectoryException string
  | FileDoesNotExistException string
  | HostException string

text \<open>Sequencing of calls that may throw: the first exception ends the evaluation.\<close>

definition bindE :: "error + 'a \<Rightarrow> ('a \<Rightarrow> error + 'b) \<Rightarrow> error + 'b" where
  "bindE m f = (case m of Inl e \<Rightarrow> Inl e | Inr x \<Rightarrow> f x)"

text \<open>
  JavaScript's \<^verbatim>\<open>a && b\<close> on two boolean calls: \<^verbatim>\<open>b\<close> is evaluated (and can
  throw) only when \<^verbatim>\<open>a\<close> returned true.
\<close>

definition andE :: "error + bool \<Rightarrow> error + bool \<Rightarrow> error + bool" where
  "andE a b = bindE a (\<lambda>x. if x then b else Inr False)"

text \<open>
  A property of a JavaScript object, as far as \<^verbatim>\<open>stat\<close> handles them: a number,
  a \<^verbatim>\<open>Date\<close> (its \<^verbatim>\<open>getTime()\<close>, milliseconds since the epoch) or a method
  without arguments that returns a boolean.  An object is the map from the names of its
  own properties to their values.
\<close>

datatype js_property = PropNumber real | PropDate int | PropMethod bool

type_synonym js_object = "string \<rightharpoonup> js_property"

text \<open>
  \<^verbatim>\<open>virtualFs.Stats\<close>: the object the filesystem's \<^verbatim>\<open>stat\<close> returns.  The
  first seven fields are what the declared members give when they are read or called
  (\<^verbatim>\<open>stats.size\<close>, \<^verbatim>\<open>stats.atime.getTime()\<close>, \<^verbatim>\<open>stats.isFile()\<close>);
  \<open>own\<close> holds the own enumerable properties of the object, the ones an object spread
  copies.  The type \<^verbatim>\<open>Stats<T>\<close> lets a host add properties of its own, and a
  host can keep its methods on the prototype.
\<close>

record Stats =
  isFile :: bool
  isDirectory :: bool
  size_bytes :: nat
  atime :: int
  mtime :: int
  ctime :: int
  birthtime :: int
  own :: js_object

text \<open>The records of \<^verbatim>\<open>CordHost.records()\<close>, tagged by kind.\<close>

datatype CordHostRecord =
    CordHostDelete Path
  | CordHostRename Path Path
  | CordHostCreate Path FileBuffer
  | CordHostOverwrite Path FileBuffer

text \<open>
  The functions that compiler\_host.ts imports from \<^verbatim>\<open>@angular-devkit/core\<close>
  are parameters of the model: the path functions, the operations of the
  \<^verbatim>\<open>SyncDelegateHost\<close> over the \<^verbatim>\<open>CordHost\<close> (on a filesystem state
  \<open>'fs\<close>), the same existence queries on the \<^verbatim>\<open>CordHost\<close>'s backend, and the
  two buffer conversions.  Each query may throw.  A write returns the exception it threw,
  if any, and the state it left.
\<close>

record 'fs devkit =
  normalize_path :: "string \<Rightarrow> error + Path"
  isAbsolute :: "Path \<Rightarrow> bool"
  join :: "Path \<Rightarrow> string \<Rightarrow> error + Path"
  getSystemPath :: "Path \<Rightarrow> string"
  host_exists :: "'fs \<Rightarrow> Path \<Rightarrow> error + bool"
  host_isFile :: "'fs \<Rightarrow> Path \<Rightarrow> error + bool"
  host_read :: "'fs \<Rightarrow> Path \<Rightarrow> error + FileBuffer"
  host_write :: "'fs \<Rightarrow> Path \<Rightarrow> FileBuffer \<Rightarrow> error option \<times> 'fs"
  host_stat :: "'fs \<Rightarrow> Path \<Rightarrow> error + Stats option"
  host_records :: "'fs \<Rightarrow> CordHostRecord list"
  backend_exists :: "'fs \<Rightarrow> Path \<Rightarrow> error + bool"
  backend_isFile :: "'fs \<Rightarrow> Path \<Rightarrow> error + bool"
  fileBufferToString :: "FileBuffer \<Rightarrow> js_string"
  stringToFileBuffer :: "js_string \<Rightarrow> FileBuffer"

text \<open>
  The Node process: \<^verbatim>\<open>process.platform\<close>, and the module's constant
  \<^verbatim>\<open>dev\<close>, the integer that \<^verbatim>\<open>Math.floor(Math.random() * 10000)\<close> gave when
  the module was loaded.
\<close>

record process =
  platform :: string
  dev :: int

subsection \<open>The host object\<close>

text \<open>
  The fields of \<^verbatim>\<open>WebpackCompilerHost\<close>: \<^verbatim>\<open>_syncHost\<close> (the state of the
  filesystem it wraps), \<^verbatim>\<open>_changedFiles\<close> (a JavaScript \<^verbatim>\<open>Set\<close>, which
  iterates in insertion order: a list without repetitions) and \<^verbatim>\<open>_basePath\<close>.
\<close>

record 'fs WebpackCompilerHost =
  syncHost :: 'fs
  changedFiles :: "string list"
  basePath :: Path

text \<open>\<^verbatim>\<open>Set.prototype.add\<close> and \<^verbatim>\<open>String.prototype.endsWith\<close>,
  \<^verbatim>\<open>startsWith\<close>, \<^verbatim>\<open>toLowerCase\<close> (on ASCII letters).\<close>

definition set_add :: "'a \<Rightarrow> 'a list \<Rightarrow> 'a list" where
  "set_add x xs = (if x \<in> set xs then xs else xs @ [x])"

definition endsWith :: "string \<Rightarrow> string \<Rightarrow> bool" where
  "endsWith s suf = (length suf \<le> length s \<and> drop (length s - length suf) s = suf)"

definition startsWith :: "string \<Rightarrow> string \<Rightarrow> bool" where
  "startsWith s pre = (take (length pre) s = pre)"

definition lower_char :: "char \<Rightarrow> char" where
  "lower_char c =
     (if 65 \<le> (of_char c :: nat) \<and> (of_char c :: nat) \<le> 90
      then char_of (of_char c + (32 :: nat)) else c)"

definition toLowerCase :: "string \<Rightarrow> string" where
  "toLowerCase s = map lower_char s"

subsection \<open>Path resolution\<close>

definition denormalizePath :: "'fs devkit \<Rightarrow> string \<Rightarrow> error + string" where
  "denormalizePath api path = bindE (normalize_path api path) (\<lambda>p. Inr (getSystemPath api p))"

definition resolve :: "'fs devkit \<Rightarrow> 'fs WebpackCompilerHost \<Rightarrow> string \<Rightarrow> error + Path" where
  "resolve api this path =
     bindE (normalize_path api path) (\<lambda>p.
       if isAbsolute api p then Inr p else join api (basePath this) p)"

subsection \<open>Change tracking\<close>

definition resetChangedFileTracker :: "'fs WebpackCompilerHost \<Rightarrow> 'fs WebpackCompilerHost" where
  "resetChangedFileTracker this = this\<lparr>changedFiles := []\<rparr>"

definition getChangedFilePaths :: "'fs WebpackCompilerHost \<Rightarrow> string list" where
  "getChangedFilePaths this = changedFiles this"

subsection \<open>File access\<close>

definition fileExists ::
  "'fs devkit \<Rightarrow> 'fs WebpackCompilerHost \<Rightarrow> string \<Rightarrow> bool \<Rightarrow> error + bool" where
  "fileExists api this fileName delegate =
     bindE (resolve api this fileName) (\<lambda>p.
     bindE (andE (host_exists api (syncHost this) p) (host_isFile api (syncHost this) p)) (\<lambda>ex.
       if delegate then Inr ex
       else if \<not> ex then Inr False
       else bindE (andE (backend_exists api (syncHost this) p) (backend_isFile api (syncHost this) p))
              (\<lambda>b. Inr (\<not> b))))"

definition invalidate ::
  "'fs devkit \<Rightarrow> 'fs WebpackCompilerHost \<Rightarrow> string \<Rightarrow> error + 'fs WebpackCompilerHost" where
  "invalidate api this fileName =
     bindE (resolve api this fileName) (\<lambda>fullPath.
     bindE (fileExists api this fileName True) (\<lambda>ex.
       if ex then Inr (this\<lparr>changedFiles := set_add fullPath (changedFiles this)\<rparr>)
       else Inr this))"

definition readFile ::
  "'fs devkit \<Rightarrow> 'fs WebpackCompilerHost \<Rightarrow> string \<Rightarrow> error + js_string option" where
  "readFile api this fileName =
     bindE (resolve api this fileName) (\<lambda>filePath.
     bindE (host_exists api (syncHost this) filePath) (\<lambda>ex.
       if \<not> ex then Inr None
       else bindE (host_isFile api (syncHost this) filePath) (\<lambda>isf.
         if \<not> isf then Inr None
         else bindE (host_read api (syncHost this) filePath) (\<lambda>buf.
           Inr (Some (fileBufferToString api buf))))))"

definition readFileBuffer ::
  "'fs devkit \<Rightarrow> 'fs WebpackCompilerHost \<Rightarrow> string \<Rightarrow> error + FileBuffer option" where
  "readFileBuffer api this fileName =
     bindE (resolve api this fileName) (\<lambda>filePath.
     bindE (host_exists api (syncHost this) filePath) (\<lambda>ex.
       if \<not> ex then Inr None
       else bindE (host_isFile api (syncHost this) filePath) (\<lambda>isf.
         if \<not> isf then Inr None
         else bindE (host_read api (syncHost this) filePath) (\<lambda>buf. Inr (Some buf)))))"

definition writeFile ::
  "'fs devkit \<Rightarrow> 'fs WebpackCompilerHost \<Rightarrow> string \<Rightarrow> js_string \<Rightarrow> bool
     \<Rightarrow> error + ('fs WebpackCompilerHost \<times> error list)" where
  "writeFile api this fileName data onError =
     bindE (resolve api this fileName) (\<lambda>p.
       case host_write api (syncHost this) p (stringToFileBuffer api data) of
         (None, fs') \<Rightarrow> Inr (this\<lparr>syncHost := fs'\<rparr>, [])
       | (Some e, fs') \<Rightarrow> Inr (this\<lparr>syncHost := fs'\<rparr>, if onError then [e] else []))"

text \<open>
  In \<open>writeFile\<close> the flag \<open>onError\<close> says whether the caller passed the optional
  callback; the list returned with the new state holds the exceptions whose
  \<^verbatim>\<open>message\<close> the callback was called with.  \<^verbatim>\<open>resolve\<close> stands before
  the \<^verbatim>\<open>try\<close>, so its exception leaves the method.
\<close>

subsection \<open>Stat\<close>

text \<open>
  The object literal that \<^verbatim>\<open>stat\<close> returns lists the fabricated properties first
  and ends with the spread \<^verbatim>\<open>...stats\<close>: every own property of the filesystem's
  object is copied last and replaces a fabricated property of the same name.
  \<open>ino_draw\<close> is the integer that \<^verbatim>\<open>Math.floor(Math.random() * 100000)\<close> gives
  in this call (the expression is evaluated only when the object is built).
  \<^verbatim>\<open>parseInt('777', 8)\<close> is written out.  \<^verbatim>\<open>stats.size / 512\<close> is a division
  by a power of two, exact in binary floating point, so the real quotient is the one
  \<^verbatim>\<open>Math.ceil\<close> sees.
\<close>

definition fabricated :: "process \<Rightarrow> int \<Rightarrow> Stats \<Rightarrow> js_object" where
  "fabricated pr ino_draw stats =
     [ ''isBlockDevice'' \<mapsto> PropMethod False,
       ''isCharacterDevice'' \<mapsto> PropMethod False,
       ''isFIFO'' \<mapsto> PropMethod False,
       ''isSymbolicLink'' \<mapsto> PropMethod False,
       ''isSocket'' \<mapsto> PropMethod False,
       ''dev'' \<mapsto> PropNumber (of_int (dev pr)),
       ''ino'' \<mapsto> PropNumber (of_int ino_draw),
       ''mode'' \<mapsto> PropNumber (7 * 8 ^ 2 + 7 * 8 + 7),
       ''nlink'' \<mapsto> PropNumber 1,
       ''uid'' \<mapsto> PropNumber 0,
       ''gid'' \<mapsto> PropNumber 0,
       ''rdev'' \<mapsto> PropNumber 0,
       ''blksize'' \<mapsto> PropNumber 512,
       ''blocks'' \<mapsto> PropNumber (of_int \<lceil>real (size_bytes stats) / 512\<rceil>),
       ''atimeMs'' \<mapsto> PropNumber (of_int (atime stats)),
       ''mtimeMs'' \<mapsto> PropNumber (of_int (mtime stats)),
       ''ctimeMs'' \<mapsto> PropNumber (of_int (ctime stats)),
       ''birthtimeMs'' \<mapsto> PropNumber (of_int (birthtime stats)) ]"

definition stat ::
  "'fs devkit \<Rightarrow> process \<Rightarrow> 'fs WebpackCompilerHost \<Rightarrow> int \<Rightarrow> string
     \<Rightarrow> error + js_object option" where
  "stat api pr this ino_draw path =
     bindE (resolve api this path) (\<lambda>p.
     bindE (host_exists api (syncHost this) p) (\<lambda>ex.
       if \<not> ex then Inr None
       else bindE (host_stat api (syncHost this) p) (\<lambda>stats.
         case stats of
           None \<Rightarrow> Inr None
         | Some st \<Rightarrow> Inr (Some (fabricated pr ino_draw st ++ own st)))))"

subsection \<open>Generated files\<close>

text \<open>\<^verbatim>\<open>Array.prototype.map\<close> with a callback that may throw.\<close>

fun mapE :: "('a \<Rightarrow> error + 'b) \<Rightarrow> 'a list \<Rightarrow> error + 'b list" where
  "mapE f [] = Inr []"
| "mapE f (x # xs) = bindE (f x) (\<lambda>y. bindE (mapE f xs) (\<lambda>ys. Inr (y # ys)))"

text \<open>The getter \<^verbatim>\<open>virtualFiles\<close>: the paths of the records of kind create.\<close>

definition virtualFiles :: "'fs devkit \<Rightarrow> 'fs WebpackCompilerHost \<Rightarrow> Path list" where
  "virtualFiles api this = [p. CordHostCreate p c \<leftarrow> host_records api (syncHost this)]"

definition getNgFactoryPaths :: "'fs devkit \<Rightarrow> 'fs WebpackCompilerHost \<Rightarrow> error + string list" where
  "getNgFactoryPaths api this =
     mapE (denormalizePath api)
       (filter (\<lambda>fileName. endsWith fileName ''.ngfactory.js'' \<or> endsWith fileName ''.ngstyle.js'')
          (virtualFiles api this))"

subsection \<open>Canonical file names\<close>

definition useCaseSensitiveFileNames :: "process \<Rightarrow> bool" where
  "useCaseSensitiveFileNames pr = (\<not> startsWith (platform pr) ''win32'')"

text \<open>
  The condition of \<^verbatim>\<open>getCanonicalFileName\<close> is the expression
  \<^verbatim>\<open>this.useCaseSensitiveFileNames\<close>: the method itself, which the source does
  not call.  A JavaScript condition tests the truthiness of its value, and a function
  object is truthy.
\<close>

datatype ('a, 'b) js_value = JsBoolean bool | JsFunction "'a \<Rightarrow> 'b"

fun truthy :: "('a, 'b) js_value \<Rightarrow> bool" where
  "truthy (JsBoolean b) = b"
| "truthy (JsFunction f) = True"

definition getCanonicalFileName ::
  "'fs devkit \<Rightarrow> process \<Rightarrow> 'fs WebpackCompilerHost \<Rightarrow> string \<Rightarrow> error + string" where
  "getCanonicalFileName api pr this fileName =
     bindE (resolve api this fileName) (\<lambda>path.
       Inr (if truthy (JsFunction useCaseSensitiveFileNames) then path else toLowerCase path))"

section \<open>The path functions and the layered filesystem\<close>

text \<open>
  The code of \<^verbatim>\<open>@angular-devkit/core\<close> is not among the sources.  The definitions
  of this section give the imported functions a meaning, from what the specification
  says of them; they instantiate the parameters above where a property depends on what
  the imported functions compute, and in the concrete instances of the theorems.
\<close>

subsection \<open>Normalized paths\<close>

text \<open>
  Modelled from the spec: \<^verbatim>\<open>normalize\<close>, \<^verbatim>\<open>isAbsolute\<close>,
  \<^verbatim>\<open>join\<close> and \<^verbatim>\<open>getSystemPath\<close> are missing from the sources.  The
  specification asks that a path be normalized before every lookup, that two spellings of
  one path (slash direction) give the same key, that an absolute path pass through
  unchanged and that a relative one be joined to the base path.  Here a path is cut at
  every slash and backslash; empty fragments and \<^verbatim>\<open>.\<close> are dropped; \<^verbatim>\<open>..\<close>
  removes the fragment before it, is kept when a relative path has none left, and makes
  an absolute path invalid when it would climb above the root; a Windows drive prefix
  (a letter, a colon, a separator) becomes the first fragment.  The normalized form
  joins the fragments with single slashes, with a leading slash exactly for an absolute
  path.
\<close>

definition isSep :: "char \<Rightarrow> bool" where
  "isSep c = (c = CHR ''/'' \<or> c = CHR 0x5C)"

fun split_path :: "string \<Rightarrow> string list" where
  "split_path [] = [[]]"
| "split_path (c # cs) =
     (if isSep c then [] # split_path cs
      else (case split_path cs of [] \<Rightarrow> [[c]] | s # ss \<Rightarrow> (c # s) # ss))"

fun join_sep :: "string list \<Rightarrow> string" where
  "join_sep [] = []"
| "join_sep [s] = s"
| "join_sep (s # t # ss) = s @ ''/'' @ join_sep (t # ss)"

definition is_letter :: "char \<Rightarrow> bool" where
  "is_letter c =
     ((65 \<le> (of_char c :: nat) \<and> (of_char c :: nat) \<le> 90) \<or>
      (97 \<le> (of_char c :: nat) \<and> (of_char c :: nat) \<le> 122))"

fun windows_drive :: "string \<Rightarrow> bool" where
  "windows_drive (a # b # c # rest) = (is_letter a \<and> b = CHR '':'' \<and> isSep c)"
| "windows_drive _ = False"

text \<open>
  Modelled from the spec: the loop of \<^verbatim>\<open>normalize\<close> over the fragments (missing
  from the sources).  The fragments are read from the left; \<open>acc\<close> holds the fragments
  kept so far, the last one first.
\<close>

fun normalize_fragments ::
  "string \<Rightarrow> bool \<Rightarrow> string list \<Rightarrow> string list \<Rightarrow> error + string list" where
  "normalize_fragments original relative acc [] = Inr (rev acc)"
| "normalize_fragments original relative acc (s # ss) =
     (if s = ''.'' \<or> s = [] then normalize_fragments original relative acc ss
      else if s = ''..'' then
        (case acc of
           [] \<Rightarrow> if relative then normalize_fragments original relative [s] ss
                 else Inl (InvalidPathException original)
         | t # ts \<Rightarrow> if t \<noteq> ''..'' then normalize_fragments original relative ts ss
                     else normalize_fragments original relative (s # acc) ss)
      else normalize_fragments original relative (s # acc) ss)"

text \<open>
  Modelled from the spec: \<^verbatim>\<open>normalize\<close> (missing from the sources).  The empty
  path, \<^verbatim>\<open>.\<close> and the root are answered at once; a path is relative when its
  first fragment is not empty.
\<close>

definition path_normalize :: "string \<Rightarrow> error + Path" where
  "path_normalize path =
     (if path = [] \<or> path = ''.'' then Inr []
      else if path = ''/'' then Inr ''/''
      else
        let p = split_path (if windows_drive path
                            then CHR 0x5C # hd path # CHR 0x5C # drop 3 path else path);
            relative = (hd p \<noteq> [])
        in bindE (normalize_fragments path relative [] (if relative then p else tl p)) (\<lambda>r.
             Inr (if r = [] then (if relative then [] else ''/'')
                  else if relative then join_sep r else CHR ''/'' # join_sep r)))"

text \<open>
  Modelled from the spec: \<^verbatim>\<open>isAbsolute\<close> (missing from the sources): a normalized
  path is absolute when it starts with the separator.
\<close>

definition path_isAbsolute :: "Path \<Rightarrow> bool" where
  "path_isAbsolute p = startsWith p ''/''"

text \<open>
  Modelled from the spec: \<^verbatim>\<open>join\<close> (missing from the sources): the two paths
  with a separator between them, normalized.
\<close>

definition path_join :: "Path \<Rightarrow> string \<Rightarrow> error + Path" where
  "path_join p1 other = path_normalize ((if p1 \<noteq> [] then p1 @ ''/'' else []) @ other)"

text \<open>
  Modelled from the spec: \<^verbatim>\<open>getSystemPath\<close> (missing from the sources), the
  native spelling of a normalized path: the path itself on a POSIX platform; on Windows
  backslashes, with a leading fragment of one letter, digit or underscore read as the
  drive.
\<close>

definition is_word_char :: "char \<Rightarrow> bool" where
  "is_word_char c =
     (is_letter c \<or> (48 \<le> (of_char c :: nat) \<and> (of_char c :: nat) \<le> 57) \<or> c = CHR ''_'')"

definition to_backslashes :: "string \<Rightarrow> string" where
  "to_backslashes s = map (\<lambda>c. if c = CHR ''/'' then CHR 0x5C else c) s"

fun asWindowsPath :: "Path \<Rightarrow> string" where
  "asWindowsPath (a # d # b # rest) =
     (if a = CHR ''/'' \<and> is_word_char d \<and> b = CHR ''/''
      then d # CHR '':'' # CHR 0x5C # to_backslashes rest
      else to_backslashes (a # d # b # rest))"
| "asWindowsPath p = to_backslashes p"

definition path_getSystemPath :: "process \<Rightarrow> Path \<Rightarrow> string" where
  "path_getSystemPath pr p = (if startsWith (platform pr) ''win32'' then asWindowsPath p else p)"

subsection \<open>Text and bytes\<close>

text \<open>
  Modelled from the spec: \<^verbatim>\<open>stringToFileBuffer\<close> (missing from the sources).  The
  specification says that the host writes text and the filesystem takes raw bytes, and
  names no encoding; the text is encoded in UTF-8, as Node's \<^verbatim>\<open>Buffer.from\<close>
  does.  A high surrogate followed by a low one is one code point in four bytes; a
  surrogate on its own is encoded as the replacement character U+FFFD.
\<close>

definition is_high_surrogate :: "nat \<Rightarrow> bool" where
  "is_high_surrogate c = (0xD800 \<le> c \<and> c \<le> 0xDBFF)"

definition is_low_surrogate :: "nat \<Rightarrow> bool" where
  "is_low_surrogate c = (0xDC00 \<le> c \<and> c \<le> 0xDFFF)"

definition utf8_bytes :: "nat \<Rightarrow> FileBuffer" where
  "utf8_bytes cp =
     (if cp < 0x80 then [of_nat cp]
      else if cp < 0x800 then [of_nat (0xC0 + cp div 64), of_nat (0x80 + cp mod 64)]
      else if cp < 0x10000 then
        [of_nat (0xE0 + cp div 4096), of_nat (0x80 + cp div 64 mod 64), of_nat (0x80 + cp mod 64)]
      else
        [of_nat (0xF0 + cp div 262144), of_nat (0x80 + cp div 4096 mod 64),
         of_nat (0x80 + cp div 64 mod 64), of_nat (0x80 + cp mod 64)])"

fun utf8_encode :: "js_string \<Rightarrow> FileBuffer" where
  "utf8_encode [] = []"
| "utf8_encode [u] =
     (if is_high_surrogate (unat u) \<or> is_low_surrogate (unat u) then utf8_bytes 0xFFFD
      else utf8_bytes (unat u))"
| "utf8_encode (u # v # us) =
     (if is_high_surrogate (unat u) \<and> is_low_surrogate (unat v)
      then utf8_bytes (0x10000 + (unat u - 0xD800) * 1024 + (unat v - 0xDC00)) @ utf8_encode us
      else if is_high_surrogate (unat u) \<or> is_low_surrogate (unat u)
      then utf8_bytes 0xFFFD @ utf8_encode (v # us)
      else utf8_bytes (unat u) @ utf8_encode (v # us))"

text \<open>
  Modelled from the spec: \<^verbatim>\<open>fileBufferToString\<close> (missing from the sources), the
  UTF-8 decoding of Node's \<^verbatim>\<open>Buffer.toString\<close>.  The decoder reads a lead byte, then
  as many continuation bytes as the lead announces, each within the bounds \<open>lower\<close>
  and \<open>upper\<close>; a byte that cannot start or continue a sequence gives the
  replacement character, and a byte that ends a sequence early is read again as a lead.
  The arguments are the code point so far, the number of bytes still needed, and the
  bounds of the next byte.
\<close>

fun utf8_code_points :: "nat \<Rightarrow> nat \<Rightarrow> nat \<Rightarrow> nat \<Rightarrow> FileBuffer \<Rightarrow> nat list" where
  "utf8_code_points cp needed lower upper [] = (if needed \<noteq> 0 then [0xFFFD] else [])"
| "utf8_code_points cp needed lower upper (b # bs) =
     (if needed = 0 then
        (if unat b \<le> 0x7F then unat b # utf8_code_points 0 0 0x80 0xBF bs
         else if 0xC2 \<le> unat b \<and> unat b \<le> 0xDF
           then utf8_code_points (unat b mod 32) 1 0x80 0xBF bs
         else if 0xE0 \<le> unat b \<and> unat b \<le> 0xEF
           then utf8_code_points (unat b mod 16) 2
                  (if unat b = 0xE0 then 0xA0 else 0x80) (if unat b = 0xED then 0x9F else 0xBF) bs
         else if 0xF0 \<le> unat b \<and> unat b \<le> 0xF4
           then utf8_code_points (unat b mod 8) 3
                  (if unat b = 0xF0 then 0x90 else 0x80) (if unat b = 0xF4 then 0x8F else 0xBF) bs
         else 0xFFFD # utf8_code_points 0 0 0x80 0xBF bs)
      else if unat b < lower \<or> upper < unat b
        then 0xFFFD # utf8_code_points 0 0 0x80 0xBF (b # bs)
      else if needed = 1
        then (cp * 64 + unat b mod 64) # utf8_code_points 0 0 0x80 0xBF bs
      else utf8_code_points (cp * 64 + unat b mod 64) (needed - 1) 0x80 0xBF bs)"

definition utf16_units :: "nat \<Rightarrow> js_string" where
  "utf16_units cp =
     (if cp < 0x10000 then [of_nat cp]
      else [of_nat (0xD800 + (cp - 0x10000) div 1024), of_nat (0xDC00 + (cp - 0x10000) mod 1024)])"

definition utf8_decode :: "FileBuffer \<Rightarrow> js_string" where
  "utf8_decode bs = concat (map utf16_units (utf8_code_points 0 0 0x80 0xBF bs))"

text \<open>The JavaScript string of an ASCII literal.\<close>

definition ascii :: "string \<Rightarrow> js_string" where
  "ascii s = map (\<lambda>c. of_nat (of_char c)) s"

subsection \<open>The overlay and its backing store\<close>

text \<open>
  Modelled from the spec: \<^verbatim>\<open>virtualFs.CordHost\<close> and \<^verbatim>\<open>SyncDelegateHost\<close>
  are missing from the sources.  The specification describes two layered stores, a
  mutable overlay over a backing store, with existence and kind queries against the
  merged view or the backing store alone, reads that return raw bytes, writes that accept
  raw bytes, a stat that returns a size and timestamps, and a log of the files created.
  A store maps a path to a file (its bytes and a timestamp) or a directory.  The merged
  view looks in the overlay first.  A write puts the file into the overlay, logged as
  created when the merged view did not have the path and as overwritten otherwise, and
  fails on a directory.
\<close>

datatype node = FileNode FileBuffer int | DirNode int

record cord =
  overlay :: "Path \<rightharpoonup> node"
  backend :: "Path \<rightharpoonup> node"
  filesToCreate :: "Path list"
  filesToOverwrite :: "Path list"
  clock :: int

definition merged :: "cord \<Rightarrow> Path \<rightharpoonup> node" where
  "merged fs p = (case overlay fs p of Some n \<Rightarrow> Some n | None \<Rightarrow> backend fs p)"

fun node_isFile :: "node option \<Rightarrow> bool" where
  "node_isFile (Some (FileNode c t)) = True"
| "node_isFile _ = False"

fun node_read :: "Path \<Rightarrow> node option \<Rightarrow> error + FileBuffer" where
  "node_read p (Some (FileNode c t)) = Inr c"
| "node_read p (Some (DirNode t)) = Inl (PathIsDirectoryException p)"
| "node_read p None = Inl (FileDoesNotExistException p)"

text \<open>
  Modelled from the spec: the stat object of the in-memory store (missing from the
  sources).  Its own properties are the declared members and nothing else.
\<close>

definition memory_stats :: "bool \<Rightarrow> nat \<Rightarrow> int \<Rightarrow> Stats" where
  "memory_stats file n t =
     \<lparr> isFile = file, isDirectory = (\<not> file), size_bytes = n,
       atime = t, mtime = t, ctime = t, birthtime = t,
       own = [ ''isFile'' \<mapsto> PropMethod file,
               ''isDirectory'' \<mapsto> PropMethod (\<not> file),
               ''size'' \<mapsto> PropNumber (of_nat n),
               ''atime'' \<mapsto> PropDate t,
               ''mtime'' \<mapsto> PropDate t,
               ''ctime'' \<mapsto> PropDate t,
               ''birthtime'' \<mapsto> PropDate t ] \<rparr>"

fun node_stat :: "node option \<Rightarrow> Stats option" where
  "node_stat (Some (FileNode c t)) = Some (memory_stats True (length c) t)"
| "node_stat (Some (DirNode t)) = Some (memory_stats False 0 t)"
| "node_stat None = None"

text \<open>
  Modelled from the spec: \<^verbatim>\<open>CordHost.write\<close> (missing from the sources).
\<close>

definition cord_write :: "cord \<Rightarrow> Path \<Rightarrow> FileBuffer \<Rightarrow> error option \<times> cord" where
  "cord_write fs p content =
     (case merged fs p of
        Some (DirNode t) \<Rightarrow> (Some (PathIsDirectoryException p), fs)
      | Some (FileNode c t) \<Rightarrow>
          (None, fs\<lparr>overlay := (overlay fs)(p \<mapsto> FileNode content (clock fs)),
                    filesToOverwrite :=
                      (if p \<in> set (filesToCreate fs) then filesToOverwrite fs
                       else set_add p (filesToOverwrite fs))\<rparr>)
      | None \<Rightarrow>
          (None, fs\<lparr>overlay := (overlay fs)(p \<mapsto> FileNode content (clock fs)),
                    filesToCreate := set_add p (filesToCreate fs)\<rparr>))"

text \<open>
  Modelled from the spec: \<^verbatim>\<open>CordHost.records\<close> (missing from the sources), the
  log of the files created and overwritten, each with its content in the overlay.
\<close>

definition cord_content :: "cord \<Rightarrow> Path \<Rightarrow> FileBuffer" where
  "cord_content fs p = (case overlay fs p of Some (FileNode c t) \<Rightarrow> c | _ \<Rightarrow> [])"

definition cord_records :: "cord \<Rightarrow> CordHostRecord list" where
  "cord_records fs =
     map (\<lambda>p. CordHostCreate p (cord_content fs p)) (filesToCreate fs) @
     map (\<lambda>p. CordHostOverwrite p (cord_content fs p)) (filesToOverwrite fs)"

text \<open>
  Modelled from the spec: the imported interface as a whole (missing from the sources),
  with the queries of the \<^verbatim>\<open>SyncDelegateHost\<close> answered from the merged view and
  those of the backend from the backing store.
\<close>

definition cord_devkit :: "process \<Rightarrow> cord devkit" where
  "cord_devkit pr =
     \<lparr> normalize_path = path_normalize,
       isAbsolute = path_isAbsolute,
       join = path_join,
       getSystemPath = path_getSystemPath pr,
       host_exists = (\<lambda>fs p. Inr (merged fs p \<noteq> None)),
       host_isFile = (\<lambda>fs p. Inr (node_isFile (merged fs p))),
       host_read = (\<lambda>fs p. node_read p (merged fs p)),
       host_write = cord_write,
       host_stat = (\<lambda>fs p. Inr (node_stat (merged fs p))),
       host_records = cord_records,
       backend_exists = (\<lambda>fs p. Inr (backend fs p \<noteq> None)),
       backend_isFile = (\<lambda>fs p. Inr (node_isFile (backend fs p))),
       fileBufferToString = utf8_decode,
       stringToFileBuffer = utf8_encode \<rparr>"

text \<open>
  Modelled from the spec: the same filesystem with other conversions between text and
  bytes than UTF-8 (the conversions are missing from the sources).
\<close>

definition cord_devkit_with ::
  "process \<Rightarrow> (js_string \<Rightarrow> FileBuffer) \<Rightarrow> (FileBuffer \<Rightarrow> js_string) \<Rightarrow> cord devkit" where
  "cord_devkit_with pr enc dec =
     (cord_devkit pr) \<lparr> fileBufferToString := dec, stringToFileBuffer := enc \<rparr>"

text \<open>
  Modelled from the spec: a filesystem whose stat objects are those of Node's
  \<^verbatim>\<open>fs\<close> module (missing from the sources), as a host that reads the disk returns
  them.  The numbers are own properties of the object, among them the device, the inode,
  the mode and the number of 512-byte blocks the file occupies on a disk with blocks of
  4096 bytes; the methods are on the prototype.
\<close>

definition disk_properties :: "Stats \<Rightarrow> js_object" where
  "disk_properties st =
     [ ''dev'' \<mapsto> PropNumber 2049,
       ''mode'' \<mapsto> PropNumber 33188,
       ''nlink'' \<mapsto> PropNumber 1,
       ''uid'' \<mapsto> PropNumber 1000,
       ''gid'' \<mapsto> PropNumber 1000,
       ''rdev'' \<mapsto> PropNumber 0,
       ''blksize'' \<mapsto> PropNumber 4096,
       ''ino'' \<mapsto> PropNumber 131,
       ''size'' \<mapsto> PropNumber (of_nat (size_bytes st)),
       ''blocks'' \<mapsto> PropNumber (of_nat (8 * ((size_bytes st + 4095) div 4096))),
       ''atimeMs'' \<mapsto> PropNumber (of_int (atime st)),
       ''mtimeMs'' \<mapsto> PropNumber (of_int (mtime st)),
       ''ctimeMs'' \<mapsto> PropNumber (of_int (ctime st)),
       ''birthtimeMs'' \<mapsto> PropNumber (of_int (birthtime st)),
       ''atime'' \<mapsto> PropDate (atime st),
       ''mtime'' \<mapsto> PropDate (mtime st),
       ''ctime'' \<mapsto> PropDate (ctime st),
       ''birthtime'' \<mapsto> PropDate (birthtime st) ]"

definition disk_stats :: "Stats \<Rightarrow> Stats" where
  "disk_stats st = st \<lparr>own := disk_properties st\<rparr>"

definition disk_devkit :: "process \<Rightarrow> cord devkit" where
  "disk_devkit pr =
     (cord_devkit pr)
       \<lparr> host_stat := (\<lambda>fs p. Inr (map_option disk_stats (node_stat (merged fs p)))) \<rparr>"

text \<open>
  The constructor of \<^verbatim>\<open>WebpackCompilerHost\<close> on this filesystem: a fresh overlay
  over the host it is given, and the normalized base path.
\<close>

definition new_WebpackCompilerHost ::
  "string \<Rightarrow> (Path \<rightharpoonup> node) \<Rightarrow> int \<Rightarrow> error + cord WebpackCompilerHost" where
  "new_WebpackCompilerHost base host now =
     bindE (path_normalize base) (\<lambda>b.
       Inr \<lparr> syncHost = \<lparr>overlay = Map.empty, backend = host, filesToCreate = [],
                          filesToOverwrite = [], clock = now\<rparr>,
             changedFiles = [],
             basePath = b \<rparr>)"

section \<open>Auxiliary definitions of the statements\<close>

text \<open>
  The generated outputs as the specification words them: the paths of the records of
  kind create that end in one of the two suffixes.
\<close>

definition spec_generated_paths :: "'fs devkit \<Rightarrow> 'fs WebpackCompilerHost \<Rightarrow> Path list" where
  "spec_generated_paths api this =
     [p. CordHostCreate p c \<leftarrow> host_records api (syncHost this),
         suffix ''.ngfactory.js'' p \<or> suffix ''.ngstyle.js'' p]"

text \<open>A property of the object a call of \<open>stat\<close> returned, when it returned one.\<close>

definition field_of :: "string \<Rightarrow> error + js_object option \<Rightarrow> js_property option" where
  "field_of name r = (case r of Inr (Some obj) \<Rightarrow> obj name | _ \<Rightarrow> None)"

text \<open>
  Two processes and a host for the concrete instances: a project under
  \<^verbatim>\<open>/project\<close> whose backing store holds a source file, a directory and a file of
  1024 bytes, and whose overlay holds three created files and an overwritten one.
\<close>

definition posix_process :: process where
  "posix_process = \<lparr>platform = ''linux'', dev = 2500\<rparr>"

definition win32_process :: process where
  "win32_process = \<lparr>platform = ''win32'', dev = 2500\<rparr>"

definition project_host :: "cord WebpackCompilerHost" where
  "project_host =
     \<lparr> syncHost =
         \<lparr> overlay = [''/project/src/app.ngfactory.js'' \<mapsto> FileNode [0x66, 0x61, 0x63] 7,
                      ''/project/src/app.css.ngstyle.js'' \<mapsto> FileNode [0x73, 0x74, 0x79] 7,
                      ''/project/src/main.js'' \<mapsto> FileNode [0x6D, 0x61, 0x69, 0x6E] 7,
                      ''/project/lib.ts'' \<mapsto> FileNode [0x6E, 0x65, 0x77] 7],
           backend = [''/project/lib.ts'' \<mapsto> FileNode [0x6F, 0x6C, 0x64] 0,
                      ''/project/src'' \<mapsto> DirNode 0,
                      ''/project/big.bin'' \<mapsto> FileNode (replicate 1024 0x61) 0],
           filesToCreate = [''/project/src/app.ngfactory.js'', ''/project/src/main.js'',
                            ''/project/src/app.css.ngstyle.js''],
           filesToOverwrite = [''/project/lib.ts''],
           clock = 7 \<rparr>,
       changedFiles = [],
       basePath = ''/project'' \<rparr>"

text \<open>A host whose base path is the relative path \<^verbatim>\<open>x\<close>.\<close>

definition relative_host :: "cord WebpackCompilerHost" where
  "relative_host =
     \<lparr> syncHost = \<lparr>overlay = Map.empty, backend = Map.empty, filesToCreate = [],
                      filesToOverwrite = [], clock = 0\<rparr>,
       changedFiles = [],
       basePath = ''x'' \<rparr>"

text \<open>
  Fragments of a normalized path: free of separators, and in an absolute path neither
  empty nor one of the two dot names.
\<close>

definition sep_free :: "string \<Rightarrow> bool" where
  "sep_free s = (\<forall>c \<in> set s. \<not> isSep c)"

definition clean :: "string \<Rightarrow> bool" where
  "clean s = (s \<noteq> [] \<and> s \<noteq> ''.'' \<and> s \<noteq> ''..'' \<and> sep_free s)"

text \<open>
  The outcome of a call: its result, or the fact that it threw, without the exception.
\<close>

definition outcome :: "error + 'a \<Rightarrow> unit + 'a" where
  "outcome r = map_sum (\<lambda>e. ()) id r"

text \<open>The last step of the normalization of an absolute path.\<close>

definition finish_absolute :: "string list \<Rightarrow> error + Path" where
  "finish_absolute r = Inr (if r = [] then ''/'' else CHR ''/'' # join_sep r)"

section \<open>Properties of the host\<close>

subsection \<open>Sequencing\<close>


lemma bindE_Inl [simp]: "bindE (Inl e) f = Inl e"
  by (simp add: bindE_def)

lemma bindE_Inr [simp]: "bindE (Inr x) f = f x"
  by (simp add: bindE_def)

lemma andE_simps [simp]:
  "andE (Inl e) b = Inl e"
  "andE (Inr True) b = b"
  "andE (Inr False) b = Inr False"
  by (simp_all add: andE_def)

lemma andE_eq_True: "andE a b = Inr True \<longleftrightarrow> a = Inr True \<and> b = Inr True"
  by (cases a) (auto simp: andE_def)

lemma andE_eq_False:
  "andE a b = Inr False \<longleftrightarrow> a = Inr False \<or> (a = Inr True \<and> b = Inr False)"
  by (cases a) (auto simp: andE_def)

subsection \<open>Missing files\<close>

text \<open>
  C2.  For every path whose resolved form does not exist in the filesystem, or exists
  but is not a file, \<open>fileExists\<close> returns false (in both modes), and \<open>readFile\<close>
  and \<open>readFileBuffer\<close> return the absent value; none of them throws.
\<close>

theorem missing_file_is_absent:
  assumes "resolve api this p = Inr q"
    and "host_exists api (syncHost this) q = Inr False \<or>
         (host_exists api (syncHost this) q = Inr True \<and>
          host_isFile api (syncHost this) q = Inr False)"
  shows "fileExists api this p True = Inr False \<and>
         fileExists api this p False = Inr False \<and>
         readFile api this p = Inr None \<and>
         readFileBuffer api this p = Inr None"
  using assms by (auto simp: fileExists_def readFile_def readFileBuffer_def)

theorem missing_file_is_absent_witness:
  "resolve (cord_devkit posix_process) project_host ''src/missing.ts'' =
     Inr ''/project/src/missing.ts'' \<and>
   host_exists (cord_devkit posix_process) (syncHost project_host) ''/project/src/missing.ts'' =
     Inr False \<and>
   fileExists (cord_devkit posix_process) project_host ''src/missing.ts'' True = Inr False \<and>
   readFile (cord_devkit posix_process) project_host ''src/missing.ts'' = Inr None \<and>
   readFileBuffer (cord_devkit posix_process) project_host ''src/missing.ts'' = Inr None \<and>
   resolve (cord_devkit posix_process) project_host ''src'' = Inr ''/project/src'' \<and>
   host_exists (cord_devkit posix_process) (syncHost project_host) ''/project/src'' = Inr True \<and>
   host_isFile (cord_devkit posix_process) (syncHost project_host) ''/project/src'' = Inr False \<and>
   fileExists (cord_devkit posix_process) project_host ''src'' True = Inr False \<and>
   readFile (cord_devkit posix_process) project_host ''src'' = Inr None \<and>
   readFileBuffer (cord_devkit posix_process) project_host ''src'' = Inr None"
proof -
  have r1: "resolve (cord_devkit posix_process) project_host ''src/missing.ts'' =
      Inr ''/project/src/missing.ts''"
    by code_simp
  have e1: "host_exists (cord_devkit posix_process) (syncHost project_host)
      ''/project/src/missing.ts'' = Inr False"
    by code_simp
  have r2: "resolve (cord_devkit posix_process) project_host ''src'' = Inr ''/project/src''"
    by code_simp
  have e2: "host_exists (cord_devkit posix_process) (syncHost project_host) ''/project/src'' =
      Inr True"
    by code_simp
  have f2: "host_isFile (cord_devkit posix_process) (syncHost project_host) ''/project/src'' =
      Inr False"
    by code_simp
  from missing_file_is_absent [OF r1 disjI1 [OF e1]]
    missing_file_is_absent [OF r2 disjI2 [OF conjI [OF e2 f2]]] r1 e1 r2 e2 f2
  show ?thesis by simp
qed

subsection \<open>The two modes of \<open>fileExists\<close>\<close>

text \<open>
  C5.  With \<open>delegate = false\<close>, \<open>fileExists\<close> returns true exactly when the resolved
  path exists as a file in the merged view and the backing store answers that it does
  not exist, or exists and is not a file; a file present in both layers gives false.
\<close>

theorem fileExists_overlay_only:
  assumes "resolve api this p = Inr q"
  shows "(fileExists api this p False = Inr True \<longleftrightarrow>
           (host_exists api (syncHost this) q = Inr True \<and>
            host_isFile api (syncHost this) q = Inr True) \<and>
           (backend_exists api (syncHost this) q = Inr False \<or>
            (backend_exists api (syncHost this) q = Inr True \<and>
             backend_isFile api (syncHost this) q = Inr False))) \<and>
         (host_exists api (syncHost this) q = Inr True \<and>
          host_isFile api (syncHost this) q = Inr True \<and>
          backend_exists api (syncHost this) q = Inr True \<and>
          backend_isFile api (syncHost this) q = Inr True \<longrightarrow>
            fileExists api this p False = Inr False)"
proof -
  let ?m = "andE (host_exists api (syncHost this) q) (host_isFile api (syncHost this) q)"
  let ?b = "andE (backend_exists api (syncHost this) q) (backend_isFile api (syncHost this) q)"
  have fe: "fileExists api this p False =
      bindE ?m (\<lambda>ex. if \<not> ex then Inr False else bindE ?b (\<lambda>b. Inr (\<not> b)))"
    using assms by (simp add: fileExists_def)
  have "fileExists api this p False = Inr True \<longleftrightarrow> ?m = Inr True \<and> ?b = Inr False"
    unfolding fe by (cases ?m; cases ?b) auto
  moreover have "?m = Inr True \<and> ?b = Inr True \<longrightarrow> fileExists api this p False = Inr False"
    unfolding fe by simp
  ultimately show ?thesis
    by (simp add: andE_eq_True andE_eq_False)
qed

theorem fileExists_overlay_only_witness:
  "resolve (cord_devkit posix_process) project_host ''src/main.js'' =
     Inr ''/project/src/main.js'' \<and>
   backend_exists (cord_devkit posix_process) (syncHost project_host) ''/project/src/main.js'' =
     Inr False \<and>
   fileExists (cord_devkit posix_process) project_host ''src/main.js'' False = Inr True \<and>
   resolve (cord_devkit posix_process) project_host ''lib.ts'' = Inr ''/project/lib.ts'' \<and>
   backend_isFile (cord_devkit posix_process) (syncHost project_host) ''/project/lib.ts'' =
     Inr True \<and>
   fileExists (cord_devkit posix_process) project_host ''lib.ts'' False = Inr False"
proof -
  have r1: "resolve (cord_devkit posix_process) project_host ''src/main.js'' =
      Inr ''/project/src/main.js''"
    by code_simp
  have m1: "host_exists (cord_devkit posix_process) (syncHost project_host)
        ''/project/src/main.js'' = Inr True"
      "host_isFile (cord_devkit posix_process) (syncHost project_host)
        ''/project/src/main.js'' = Inr True"
      "backend_exists (cord_devkit posix_process) (syncHost project_host)
        ''/project/src/main.js'' = Inr False"
    by code_simp+
  have r2: "resolve (cord_devkit posix_process) project_host ''lib.ts'' = Inr ''/project/lib.ts''"
    by code_simp
  have m2: "host_exists (cord_devkit posix_process) (syncHost project_host)
        ''/project/lib.ts'' = Inr True"
      "host_isFile (cord_devkit posix_process) (syncHost project_host)
        ''/project/lib.ts'' = Inr True"
      "backend_exists (cord_devkit posix_process) (syncHost project_host)
        ''/project/lib.ts'' = Inr True"
      "backend_isFile (cord_devkit posix_process) (syncHost project_host)
        ''/project/lib.ts'' = Inr True"
    by code_simp+
  from fileExists_overlay_only [OF r1] fileExists_overlay_only [OF r2] r1 m1 r2 m2
  show ?thesis by simp
qed

text \<open>
  C10.  Whenever \<open>fileExists\<close> returns true with \<open>delegate = false\<close>, it returns true
  in the default mode as well.
\<close>

theorem fileExists_overlay_implies_merged:
  assumes "fileExists api this p False = Inr True"
  shows "fileExists api this p True = Inr True"
proof (cases "resolve api this p")
  case (Inl e)
  with assms show ?thesis by (simp add: fileExists_def)
next
  case (Inr q)
  show ?thesis
  proof (cases "andE (host_exists api (syncHost this) q) (host_isFile api (syncHost this) q)")
    case (Inl e)
    with Inr assms show ?thesis by (simp add: fileExists_def)
  next
    case ex: (Inr b)
    with Inr assms show ?thesis by (cases b) (simp_all add: fileExists_def)
  qed
qed

theorem fileExists_overlay_implies_merged_witness:
  "fileExists (cord_devkit posix_process) project_host ''src/app.ngfactory.js'' False = Inr True \<and>
   fileExists (cord_devkit posix_process) project_host ''src/app.ngfactory.js'' True = Inr True"
proof -
  have h: "fileExists (cord_devkit posix_process) project_host ''src/app.ngfactory.js'' False =
      Inr True"
    by code_simp
  from fileExists_overlay_implies_merged [OF h] h show ?thesis by simp
qed

subsection \<open>Change tracking\<close>

text \<open>
  C4.  When \<open>fileExists\<close> is true of a path, \<open>invalidate\<close> succeeds and the resolved
  path is among the paths that \<open>getChangedFilePaths\<close> returns afterwards; after
  \<open>resetChangedFileTracker\<close>, \<open>getChangedFilePaths\<close> returns the empty list.
\<close>

theorem invalidate_records_changed_file:
  "(fileExists api this p True = Inr True \<longrightarrow>
      (\<exists>q this'. resolve api this p = Inr q \<and> invalidate api this p = Inr this' \<and>
         q \<in> set (getChangedFilePaths this'))) \<and>
   getChangedFilePaths (resetChangedFileTracker this) = []"
proof -
  have "\<exists>q this'. resolve api this p = Inr q \<and> invalidate api this p = Inr this' \<and>
         q \<in> set (getChangedFilePaths this')"
    if ex: "fileExists api this p True = Inr True"
  proof (cases "resolve api this p")
    case (Inl e)
    with ex show ?thesis by (simp add: fileExists_def)
  next
    case (Inr q)
    with ex show ?thesis
      by (simp add: invalidate_def getChangedFilePaths_def set_add_def)
  qed
  then show ?thesis
    by (simp add: getChangedFilePaths_def resetChangedFileTracker_def)
qed

theorem invalidate_records_changed_file_witness:
  "fileExists (cord_devkit posix_process) project_host ''lib.ts'' True = Inr True \<and>
   (\<exists>q this'. resolve (cord_devkit posix_process) project_host ''lib.ts'' = Inr q \<and>
      invalidate (cord_devkit posix_process) project_host ''lib.ts'' = Inr this' \<and>
      q \<in> set (getChangedFilePaths this')) \<and>
   getChangedFilePaths (resetChangedFileTracker project_host) = []"
proof -
  have h: "fileExists (cord_devkit posix_process) project_host ''lib.ts'' True = Inr True"
    by code_simp
  from invalidate_records_changed_file [of "cord_devkit posix_process" project_host "''lib.ts''"]
    h show ?thesis by blast
qed

subsection \<open>Generated files\<close>

lemma endsWith_suffix: "endsWith s suf \<longleftrightarrow> suffix suf s"
proof
  assume "endsWith s suf"
  then have "drop (length s - length suf) s = suf" by (simp add: endsWith_def)
  then have "s = take (length s - length suf) s @ suf"
    by (metis append_take_drop_id)
  then show "suffix suf s" by (rule suffixI)
next
  assume "suffix suf s"
  then obtain zs where "s = zs @ suf" by (auto simp: suffix_def)
  then show "endsWith s suf" by (simp add: endsWith_def)
qed

lemma mapE_success:
  assumes "\<forall>x \<in> set xs. \<exists>y. f x = Inr y"
  shows "\<exists>ys. mapE f xs = Inr ys \<and> map Inr ys = map f xs"
  using assms
proof (induction xs)
  case Nil
  then show ?case by simp
next
  case (Cons x xs)
  then obtain y ys where "f x = Inr y" "mapE f xs = Inr ys" "map Inr ys = map f xs"
    by auto
  then show ?case by simp
qed

lemma created_filter:
  "[p. CordHostCreate p c \<leftarrow> rs, P p] = filter P [p. CordHostCreate p c \<leftarrow> rs]"
  by (induction rs) (auto split: CordHostRecord.splits)

lemma spec_generated_paths_eq:
  "spec_generated_paths api this =
     filter (\<lambda>fileName. endsWith fileName ''.ngfactory.js'' \<or> endsWith fileName ''.ngstyle.js'')
       (virtualFiles api this)"
  unfolding spec_generated_paths_def virtualFiles_def endsWith_suffix
  by (rule created_filter)

text \<open>
  C6.  When every selected path denormalizes, \<open>getNgFactoryPaths\<close> returns, in the
  order of the records, exactly the denormalized paths of the records of kind create
  whose path ends in \<^verbatim>\<open>.ngfactory.js\<close> or \<^verbatim>\<open>.ngstyle.js\<close>; every element of
  the result is the denormalized path of such a record.
\<close>

theorem getNgFactoryPaths_exact:
  assumes "\<forall>p \<in> set (spec_generated_paths api this). \<exists>s. denormalizePath api p = Inr s"
  shows "\<exists>out. getNgFactoryPaths api this = Inr out \<and>
           map Inr out = map (denormalizePath api) (spec_generated_paths api this) \<and>
           (\<forall>x \<in> set out. \<exists>p c. CordHostCreate p c \<in> set (host_records api (syncHost this)) \<and>
              (suffix ''.ngfactory.js'' p \<or> suffix ''.ngstyle.js'' p) \<and>
              denormalizePath api p = Inr x)"
proof -
  from mapE_success [OF assms] obtain out where
    out: "mapE (denormalizePath api) (spec_generated_paths api this) = Inr out"
      "map Inr out = map (denormalizePath api) (spec_generated_paths api this)"
    by blast
  have "\<exists>p c. CordHostCreate p c \<in> set (host_records api (syncHost this)) \<and>
              (suffix ''.ngfactory.js'' p \<or> suffix ''.ngstyle.js'' p) \<and>
              denormalizePath api p = Inr x" if "x \<in> set out" for x
  proof -
    from that have "Inr x \<in> set (map Inr out :: (error + string) list)" by simp
    then have "Inr x \<in> set (map (denormalizePath api) (spec_generated_paths api this))"
      by (simp only: out(2))
    then obtain p where p: "p \<in> set (spec_generated_paths api this)" "denormalizePath api p = Inr x"
      by auto
    from p(1) show ?thesis
      using p(2) by (auto simp: spec_generated_paths_def split: CordHostRecord.splits if_splits)
  qed
  with out show ?thesis
    by (auto simp: getNgFactoryPaths_def spec_generated_paths_eq [symmetric])
qed

theorem getNgFactoryPaths_exact_witness:
  "spec_generated_paths (cord_devkit win32_process) project_host =
     [''/project/src/app.ngfactory.js'', ''/project/src/app.css.ngstyle.js''] \<and>
   getNgFactoryPaths (cord_devkit win32_process) project_host =
     Inr [to_backslashes ''/project/src/app.ngfactory.js'',
          to_backslashes ''/project/src/app.css.ngstyle.js'']"
proof -
  let ?api = "cord_devkit win32_process"
  have sel: "spec_generated_paths ?api project_host =
      [''/project/src/app.ngfactory.js'', ''/project/src/app.css.ngstyle.js'']"
    by code_simp
  have d: "denormalizePath ?api ''/project/src/app.ngfactory.js'' =
        Inr (to_backslashes ''/project/src/app.ngfactory.js'')"
      "denormalizePath ?api ''/project/src/app.css.ngstyle.js'' =
        Inr (to_backslashes ''/project/src/app.css.ngstyle.js'')"
    by code_simp+
  have "\<forall>p \<in> set (spec_generated_paths ?api project_host). \<exists>s. denormalizePath ?api p = Inr s"
    unfolding sel using d by simp
  from getNgFactoryPaths_exact [OF this] obtain out where
    "getNgFactoryPaths ?api project_host = Inr out"
    "map Inr out = map (denormalizePath ?api) (spec_generated_paths ?api project_host)"
    by blast
  with sel d show ?thesis by auto
qed

subsection \<open>Stat\<close>

lemma stat_value:
  assumes "resolve api this p = Inr q"
    and "host_exists api (syncHost this) q = Inr True"
    and "host_stat api (syncHost this) q = Inr (Some st)"
  shows "stat api pr this ino_draw p = Inr (Some (fabricated pr ino_draw st ++ own st))"
  using assms by (simp add: stat_def)

lemma fabricated_blocks:
  "fabricated pr ino_draw st ''blocks'' = Some (PropNumber (of_int \<lceil>real (size_bytes st) / 512\<rceil>))"
  unfolding fabricated_def
  by (simp only: fun_upd_apply list.inject char.inject simp_thms if_True if_False)

lemma fabricated_stable:
  "name \<noteq> ''ino'' \<Longrightarrow> fabricated pr d1 st name = fabricated pr d2 st name"
  unfolding fabricated_def by (simp only: fun_upd_apply if_False)

lemma fabricated_ino: "fabricated pr d st ''ino'' = Some (PropNumber (of_int d))"
  unfolding fabricated_def
  by (simp only: fun_upd_apply list.inject char.inject simp_thms if_True if_False)

lemma ceiling_blocks: "\<lceil>real n / 512\<rceil> = int ((n + 511) div 512)"
proof -
  have "\<lceil>real n / 512\<rceil> = \<lceil>real_of_int (int n) / real_of_int 512\<rceil>" by simp
  also have "\<dots> = - ((- int n) div 512)" by (simp only: ceiling_divide_eq_div)
  also have "\<dots> = int ((n + 511) div 512)" by (simp add: zdiv_int)
  finally show ?thesis .
qed

lemma big_bin:
  "resolve (cord_devkit posix_process) project_host ''big.bin'' = Inr ''/project/big.bin''"
  "host_exists (cord_devkit posix_process) (syncHost project_host) ''/project/big.bin'' = Inr True"
  by code_simp+

lemma big_bin_node:
  "node_stat (merged (syncHost project_host) ''/project/big.bin'') =
     Some (memory_stats True 1024 0)"
  by (simp add: project_host_def merged_def)

lemma big_bin_memory:
  "host_stat (cord_devkit posix_process) (syncHost project_host) ''/project/big.bin'' =
     Inr (Some (memory_stats True 1024 0))"
  by (simp add: cord_devkit_def big_bin_node)

lemma big_bin_disk:
  "resolve (disk_devkit posix_process) project_host ''big.bin'' = Inr ''/project/big.bin''"
  "host_exists (disk_devkit posix_process) (syncHost project_host) ''/project/big.bin'' = Inr True"
  "host_stat (disk_devkit posix_process) (syncHost project_host) ''/project/big.bin'' =
     Inr (Some (disk_stats (memory_stats True 1024 0)))"
  using big_bin
  by (simp_all add: disk_devkit_def resolve_def big_bin_node cong: if_cong)

lemma memory_own:
  "own (memory_stats f n t) ''blocks'' = None"
  "own (memory_stats f n t) ''ino'' = None"
  "size_bytes (memory_stats f n t) = n"
  unfolding memory_stats_def
  by (simp_all only: Stats.simps fun_upd_apply list.inject char.inject simp_thms if_True if_False)

lemma disk_own:
  "own (disk_stats st) ''blocks'' = Some (PropNumber (of_nat (8 * ((size_bytes st + 4095) div 4096))))"
  "own (disk_stats st) ''size'' = Some (PropNumber (of_nat (size_bytes st)))"
  "own (disk_stats st) ''ino'' = Some (PropNumber 131)"
proof -
  have o: "own (disk_stats st) = disk_properties st" by (simp add: disk_stats_def)
  show "own (disk_stats st) ''blocks'' = Some (PropNumber (of_nat (8 * ((size_bytes st + 4095) div 4096))))"
    "own (disk_stats st) ''size'' = Some (PropNumber (of_nat (size_bytes st)))"
    "own (disk_stats st) ''ino'' = Some (PropNumber 131)"
    unfolding o disk_properties_def
    by (simp_all only: fun_upd_apply list.inject char.inject simp_thms if_True if_False)
qed

lemma disk_size: "size_bytes (disk_stats st) = size_bytes st"
  by (simp add: disk_stats_def)

lemma lib_ts:
  "resolve (cord_devkit posix_process) project_host ''lib.ts'' = Inr ''/project/lib.ts''"
  "host_exists (cord_devkit posix_process) (syncHost project_host) ''/project/lib.ts'' = Inr True"
  by code_simp+

lemma lib_ts_stat:
  "host_stat (cord_devkit posix_process) (syncHost project_host) ''/project/lib.ts'' =
     Inr (Some (memory_stats True 3 7))"
  by (simp add: cord_devkit_def project_host_def merged_def eval_nat_numeral)

text \<open>
  C7, as amended.  \<open>stat\<close> returns the absent value when the resolved path does not
  exist.  When it exists and the filesystem's stat object reports \<open>n\<close> bytes and has no
  own property \<^verbatim>\<open>blocks\<close>, the \<^verbatim>\<open>blocks\<close> of the result is the ceiling of
  \<open>n / 512\<close>, so 2 for 1024 bytes; when the object has its own \<^verbatim>\<open>blocks\<close>, the
  result has that value.
\<close>

theorem stat_absent_and_blocks:
  assumes "resolve api this p = Inr q"
  shows "(host_exists api (syncHost this) q = Inr False \<longrightarrow>
            stat api pr this ino_draw p = Inr None) \<and>
         (host_exists api (syncHost this) q = Inr True \<and>
          host_stat api (syncHost this) q = Inr (Some st) \<longrightarrow>
            (\<exists>obj. stat api pr this ino_draw p = Inr (Some obj) \<and>
               (own st ''blocks'' = None \<longrightarrow>
                  obj ''blocks'' = Some (PropNumber (of_int \<lceil>real (size_bytes st) / 512\<rceil>)) \<and>
                  obj ''blocks'' = Some (PropNumber (of_nat ((size_bytes st + 511) div 512))) \<and>
                  (size_bytes st = 1024 \<longrightarrow> obj ''blocks'' = Some (PropNumber 2))) \<and>
               (\<forall>v. own st ''blocks'' = Some v \<longrightarrow> obj ''blocks'' = Some v)))"
proof -
  have absent: "stat api pr this ino_draw p = Inr None"
    if "host_exists api (syncHost this) q = Inr False"
    using assms that by (simp add: stat_def)
  have present: "\<exists>obj. stat api pr this ino_draw p = Inr (Some obj) \<and>
               (own st ''blocks'' = None \<longrightarrow>
                  obj ''blocks'' = Some (PropNumber (of_int \<lceil>real (size_bytes st) / 512\<rceil>)) \<and>
                  obj ''blocks'' = Some (PropNumber (of_nat ((size_bytes st + 511) div 512))) \<and>
                  (size_bytes st = 1024 \<longrightarrow> obj ''blocks'' = Some (PropNumber 2))) \<and>
               (\<forall>v. own st ''blocks'' = Some v \<longrightarrow> obj ''blocks'' = Some v)"
    if e: "host_exists api (syncHost this) q = Inr True"
      and s: "host_stat api (syncHost this) q = Inr (Some st)"
  proof -
    let ?obj = "fabricated pr ino_draw st ++ own st"
    have 1: "?obj ''blocks'' = Some (PropNumber (of_int \<lceil>real (size_bytes st) / 512\<rceil>))"
      if "own st ''blocks'' = None"
      using that by (simp add: map_add_def fabricated_blocks)
    have 2: "?obj ''blocks'' = Some (PropNumber (of_nat ((size_bytes st + 511) div 512)))"
      if "own st ''blocks'' = None"
      using 1 [OF that] by (simp add: ceiling_blocks)
    have 3: "?obj ''blocks'' = Some (PropNumber 2)"
      if "own st ''blocks'' = None" "size_bytes st = 1024"
      using 2 [OF that(1)] that(2) by simp
    have 4: "?obj ''blocks'' = Some v" if "own st ''blocks'' = Some v" for v
      using that by (simp add: map_add_def)
    have sv: "stat api pr this ino_draw p = Inr (Some ?obj)"
      by (rule stat_value [OF assms e s])
    show ?thesis
    proof (intro exI conjI impI allI)
      show "stat api pr this ino_draw p = Inr (Some ?obj)" by (rule sv)
    next
      assume "own st ''blocks'' = None"
      then show "?obj ''blocks'' = Some (PropNumber (of_int \<lceil>real (size_bytes st) / 512\<rceil>))"
        by (rule 1)
    next
      assume "own st ''blocks'' = None"
      then show "?obj ''blocks'' = Some (PropNumber (of_nat ((size_bytes st + 511) div 512)))"
        by (rule 2)
    next
      assume "own st ''blocks'' = None" "size_bytes st = 1024"
      then show "?obj ''blocks'' = Some (PropNumber 2)" by (rule 3)
    next
      fix v assume "own st ''blocks'' = Some v"
      then show "?obj ''blocks'' = Some v" by (rule 4)
    qed
  qed
  show ?thesis
  proof (intro conjI impI)
    assume "host_exists api (syncHost this) q = Inr False"
    then show "stat api pr this ino_draw p = Inr None" by (rule absent)
  next
    assume "host_exists api (syncHost this) q = Inr True \<and>
          host_stat api (syncHost this) q = Inr (Some st)"
    then show "\<exists>obj. stat api pr this ino_draw p = Inr (Some obj) \<and>
               (own st ''blocks'' = None \<longrightarrow>
                  obj ''blocks'' = Some (PropNumber (of_int \<lceil>real (size_bytes st) / 512\<rceil>)) \<and>
                  obj ''blocks'' = Some (PropNumber (of_nat ((size_bytes st + 511) div 512))) \<and>
                  (size_bytes st = 1024 \<longrightarrow> obj ''blocks'' = Some (PropNumber 2))) \<and>
               (\<forall>v. own st ''blocks'' = Some v \<longrightarrow> obj ''blocks'' = Some v)"
      using present by (elim conjE)
  qed
qed

theorem stat_absent_and_blocks_witness:
  "resolve (cord_devkit posix_process) project_host ''big.bin'' = Inr ''/project/big.bin'' \<and>
   field_of ''size'' (stat (cord_devkit posix_process) posix_process project_host 25000 ''big.bin'') =
     Some (PropNumber 1024) \<and>
   field_of ''blocks'' (stat (cord_devkit posix_process) posix_process project_host 25000 ''big.bin'') =
     Some (PropNumber 2) \<and>
   resolve (cord_devkit posix_process) project_host ''src/missing.ts'' =
     Inr ''/project/src/missing.ts'' \<and>
   stat (cord_devkit posix_process) posix_process project_host 25000 ''src/missing.ts'' = Inr None"
proof -
  let ?api = "cord_devkit posix_process"
  let ?st = "memory_stats True 1024 0"
  have r2: "resolve ?api project_host ''src/missing.ts'' = Inr ''/project/src/missing.ts''"
    by code_simp
  have e2: "host_exists ?api (syncHost project_host) ''/project/src/missing.ts'' = Inr False"
    by code_simp
  from stat_absent_and_blocks [OF big_bin(1), of posix_process 25000 ?st]
    big_bin(2) big_bin_memory memory_own(1,3) [of True 1024 0]
  obtain obj where obj: "stat ?api posix_process project_host 25000 ''big.bin'' = Inr (Some obj)"
    "obj ''blocks'' = Some (PropNumber 2)"
    by auto
  have size: "field_of ''size'' (stat ?api posix_process project_host 25000 ''big.bin'') =
      Some (PropNumber 1024)"
    unfolding stat_value [OF big_bin big_bin_memory] field_of_def
    by (simp add: map_add_def memory_stats_def)
  from stat_absent_and_blocks [OF r2, of posix_process 25000] e2
  have "stat ?api posix_process project_host 25000 ''src/missing.ts'' = Inr None"
    by simp
  with obj size big_bin(1) r2 show ?thesis by (simp add: field_of_def)
qed

text \<open>
  On a host whose stat objects are Node's, the file of 1024 bytes has the \<^verbatim>\<open>blocks\<close>
  of the disk, 8, which the spread copies over the computed 2.
\<close>

theorem stat_blocks_counterexample:
  "host_exists (disk_devkit posix_process) (syncHost project_host) ''/project/big.bin'' = Inr True \<and>
   field_of ''size'' (stat (disk_devkit posix_process) posix_process project_host 25000 ''big.bin'') =
     Some (PropNumber 1024) \<and>
   field_of ''blocks'' (stat (disk_devkit posix_process) posix_process project_host 25000 ''big.bin'') =
     Some (PropNumber 8) \<and>
   field_of ''blocks'' (stat (disk_devkit posix_process) posix_process project_host 25000 ''big.bin'') \<noteq>
     Some (PropNumber (of_int \<lceil>(1024 :: real) / 512\<rceil>))"
  unfolding stat_value [OF big_bin_disk] field_of_def
  using big_bin_disk(2) by (simp add: map_add_def disk_own disk_size memory_own)

text \<open>
  C9, as amended.  Two calls of \<open>stat\<close> on the same path and state, in the same
  process, return equal device ids, permission bits, link counts and owner ids.  The
  inodes are equal when the filesystem's stat object has its own \<^verbatim>\<open>ino\<close>;
  otherwise each is the number drawn in its call.
\<close>

theorem stat_fabricated_fields:
  assumes "resolve api this p = Inr q"
    and "host_exists api (syncHost this) q = Inr True"
    and "host_stat api (syncHost this) q = Inr (Some st)"
  shows "\<exists>o1 o2. stat api pr this d1 p = Inr (Some o1) \<and> stat api pr this d2 p = Inr (Some o2) \<and>
           o1 ''dev'' = o2 ''dev'' \<and> o1 ''mode'' = o2 ''mode'' \<and> o1 ''nlink'' = o2 ''nlink'' \<and>
           o1 ''uid'' = o2 ''uid'' \<and> o1 ''gid'' = o2 ''gid'' \<and>
           (own st ''ino'' = None \<longrightarrow>
              o1 ''ino'' = Some (PropNumber (of_int d1)) \<and> o2 ''ino'' = Some (PropNumber (of_int d2))) \<and>
           (\<forall>v. own st ''ino'' = Some v \<longrightarrow> o1 ''ino'' = Some v \<and> o2 ''ino'' = Some v)"
proof -
  let ?o1 = "fabricated pr d1 st ++ own st" and ?o2 = "fabricated pr d2 st ++ own st"
  have same: "?o1 name = ?o2 name" if "name \<noteq> ''ino''" for name
    unfolding map_add_def fabricated_stable [OF that, of pr d1 st d2] by (rule refl)
  have ino: "?o1 ''ino'' = Some (PropNumber (of_int d1)) \<and> ?o2 ''ino'' = Some (PropNumber (of_int d2))"
    if "own st ''ino'' = None"
    using that by (simp add: map_add_def fabricated_ino)
  have host: "?o1 ''ino'' = Some v \<and> ?o2 ''ino'' = Some v" if "own st ''ino'' = Some v" for v
    using that by (simp add: map_add_def)
  show ?thesis
  proof (intro exI conjI impI allI)
    show "stat api pr this d1 p = Inr (Some ?o1)" by (rule stat_value [OF assms])
    show "stat api pr this d2 p = Inr (Some ?o2)" by (rule stat_value [OF assms])
    show "?o1 ''dev'' = ?o2 ''dev''" by (rule same) simp
    show "?o1 ''mode'' = ?o2 ''mode''" by (rule same) simp
    show "?o1 ''nlink'' = ?o2 ''nlink''" by (rule same) simp
    show "?o1 ''uid'' = ?o2 ''uid''" by (rule same) simp
    show "?o1 ''gid'' = ?o2 ''gid''" by (rule same) simp
  next
    assume n: "own st ''ino'' = None"
    from ino [OF n] show "?o1 ''ino'' = Some (PropNumber (of_int d1))" ..
    from ino [OF n] show "?o2 ''ino'' = Some (PropNumber (of_int d2))" ..
  next
    fix v assume v: "own st ''ino'' = Some v"
    from host [OF v] show "?o1 ''ino'' = Some v" ..
    from host [OF v] show "?o2 ''ino'' = Some v" ..
  qed
qed

theorem stat_fabricated_fields_witness:
  "resolve (cord_devkit posix_process) project_host ''lib.ts'' = Inr ''/project/lib.ts'' \<and>
   host_exists (cord_devkit posix_process) (syncHost project_host) ''/project/lib.ts'' = Inr True \<and>
   field_of ''dev'' (stat (cord_devkit posix_process) posix_process project_host 25000 ''lib.ts'') =
     field_of ''dev'' (stat (cord_devkit posix_process) posix_process project_host 50000 ''lib.ts'') \<and>
   field_of ''mode'' (stat (cord_devkit posix_process) posix_process project_host 25000 ''lib.ts'') =
     field_of ''mode'' (stat (cord_devkit posix_process) posix_process project_host 50000 ''lib.ts'') \<and>
   field_of ''ino'' (stat (cord_devkit posix_process) posix_process project_host 25000 ''lib.ts'') =
     Some (PropNumber 25000)"
proof -
  from stat_fabricated_fields [OF lib_ts lib_ts_stat, of posix_process 25000 50000]
    memory_own(2) [of True 3 7]
  obtain o1 o2 where
    "stat (cord_devkit posix_process) posix_process project_host 25000 ''lib.ts'' = Inr (Some o1)"
    "stat (cord_devkit posix_process) posix_process project_host 50000 ''lib.ts'' = Inr (Some o2)"
    "o1 ''dev'' = o2 ''dev''" "o1 ''mode'' = o2 ''mode''"
    "o1 ''ino'' = Some (PropNumber 25000)"
    by auto
  with lib_ts show ?thesis by (simp add: field_of_def)
qed

text \<open>
  Two calls on one unchanged file of the in-memory store, with the draws 25000 and 50000
  (\<^verbatim>\<open>Math.random()\<close> returning 1/4 and 1/2), return different inodes.
\<close>

theorem stat_inode_counterexample:
  "field_of ''ino'' (stat (cord_devkit posix_process) posix_process project_host 25000 ''lib.ts'') =
     Some (PropNumber 25000) \<and>
   field_of ''ino'' (stat (cord_devkit posix_process) posix_process project_host 50000 ''lib.ts'') =
     Some (PropNumber 50000) \<and>
   field_of ''ino'' (stat (cord_devkit posix_process) posix_process project_host 25000 ''lib.ts'') \<noteq>
   field_of ''ino'' (stat (cord_devkit posix_process) posix_process project_host 50000 ''lib.ts'')"
  unfolding stat_value [OF lib_ts lib_ts_stat] field_of_def
  by (simp add: map_add_def memory_own fabricated_ino)

subsection \<open>Canonical file names\<close>

text \<open>
  C8.  On a \<^verbatim>\<open>win32\<close> process, where \<open>useCaseSensitiveFileNames\<close> returns
  false, \<open>getCanonicalFileName\<close> returns the resolved path \<^verbatim>\<open>/Project/Lib.ts\<close>
  with its upper-case letters, not its lower-case form.
\<close>

theorem getCanonicalFileName_keeps_case:
  "useCaseSensitiveFileNames win32_process = False \<and>
   getCanonicalFileName (cord_devkit win32_process) win32_process project_host ''/Project/Lib.ts'' =
     Inr ''/Project/Lib.ts'' \<and>
   toLowerCase ''/Project/Lib.ts'' = ''/project/lib.ts''"
  by code_simp

text \<open>For every process and path the canonical name is the resolved path itself.\<close>

lemma getCanonicalFileName_is_resolve:
  "getCanonicalFileName api pr this fileName = resolve api this fileName"
  by (cases "resolve api this fileName") (simp_all add: getCanonicalFileName_def)

section \<open>Properties that rest on the path functions and the filesystem\<close>

subsection \<open>Writing, then reading\<close>

lemma resolve_syncHost [simp]: "resolve api (this\<lparr>syncHost := fs\<rparr>) p = resolve api this p"
  by (simp add: resolve_def cong: if_cong)

lemma cord_write_ok:
  assumes "cord_write fs q content = (None, fs')"
  shows "merged fs' q = Some (FileNode content (clock fs))"
  using assms
  by (auto simp: cord_write_def merged_def split: option.splits node.splits)

lemma cord_devkit_with_utf8: "cord_devkit_with pr utf8_encode utf8_decode = cord_devkit pr"
  by (simp add: cord_devkit_with_def cord_devkit_def)

lemma writeFile_cord:
  assumes "resolve (cord_devkit pr) this p = Inr q"
  shows "writeFile (cord_devkit pr) this p content onError =
     (case cord_write (syncHost this) q (utf8_encode content) of
        (None, fs') \<Rightarrow> Inr (this\<lparr>syncHost := fs'\<rparr>, [])
      | (Some e, fs') \<Rightarrow> Inr (this\<lparr>syncHost := fs'\<rparr>, if onError then [e] else []))"
  using assms by (simp add: writeFile_def cord_devkit_def)

lemma readFile_cord:
  assumes "resolve (cord_devkit pr) this p = Inr q"
  shows "readFile (cord_devkit pr) this p =
     (case merged (syncHost this) q of
        Some (FileNode c t) \<Rightarrow> Inr (Some (utf8_decode c))
      | _ \<Rightarrow> Inr None)"
  using assms
  by (simp add: readFile_def cord_devkit_def split: option.splits node.splits)

lemma utf8_ascii_example:
  "utf8_decode (utf8_encode (ascii ''export const x = 1;'')) = ascii ''export const x = 1;''"
  by (simp add: ascii_def utf8_bytes_def is_high_surrogate_def is_low_surrogate_def
      utf8_decode_def utf16_units_def)

lemma utf8_lone_surrogate: "utf8_decode (utf8_encode [0xD800]) = [0xFFFD]"
  by (simp add: utf8_bytes_def is_high_surrogate_def is_low_surrogate_def
      utf8_decode_def utf16_units_def)

lemma src_a_ts:
  "resolve (cord_devkit posix_process) project_host ''src/a.ts'' = Inr ''/project/src/a.ts''"
  by code_simp

lemma src_dir:
  "resolve (cord_devkit posix_process) project_host ''src'' = Inr ''/project/src''"
  by code_simp

lemma project_merged:
  "merged (syncHost project_host) ''/project/src/a.ts'' = None"
  "merged (syncHost project_host) ''/project/src'' = Some (DirNode 0)"
  by (simp_all add: project_host_def merged_def)




subsection \<open>Fragments\<close>

lemma split_path_nonempty: "split_path s \<noteq> []"
  by (induction s) (auto split: list.splits)

lemma split_path_sep_free: "\<forall>f \<in> set (split_path s). sep_free f"
proof (induction s)
  case Nil
  then show ?case by (simp add: sep_free_def)
next
  case (Cons c cs)
  show ?case
  proof (cases "isSep c")
    case True
    with Cons show ?thesis by (simp add: sep_free_def)
  next
    case False
    obtain s ss where sp: "split_path cs = s # ss"
      using split_path_nonempty [of cs] by (cases "split_path cs") auto
    with Cons have "sep_free s" "\<forall>f \<in> set ss. sep_free f" by simp_all
    with False have "sep_free (c # s)" by (simp add: sep_free_def)
    with \<open>\<forall>f \<in> set ss. sep_free f\<close> sp False show ?thesis by simp
  qed
qed

lemma split_path_fragment: "sep_free s \<Longrightarrow> split_path s = [s]"
  by (induction s) (auto simp: sep_free_def)

lemma split_path_append:
  "sep_free s \<Longrightarrow> split_path (s @ CHR ''/'' # rest) = s # split_path rest"
  by (induction s) (auto simp: sep_free_def isSep_def)

lemma split_path_join_sep:
  "r \<noteq> [] \<Longrightarrow> \<forall>f \<in> set r. sep_free f \<Longrightarrow> split_path (join_sep r) = r"
proof (induction r rule: join_sep.induct)
  case 1
  then show ?case by simp
next
  case (2 s)
  then show ?case by (simp add: split_path_fragment)
next
  case (3 s t ss)
  then show ?case by (simp add: split_path_append)
qed

lemma normalize_fragments_skip:
  "s = ''.'' \<or> s = [] \<Longrightarrow>
   normalize_fragments original relative acc (s # ss) = normalize_fragments original relative acc ss"
  by simp

lemma normalize_fragments_up:
  "normalize_fragments original relative acc (''..'' # ss) =
     (case acc of
        [] \<Rightarrow> if relative then normalize_fragments original relative [''..''] ss
              else Inl (InvalidPathException original)
      | t # ts \<Rightarrow> if t \<noteq> ''..'' then normalize_fragments original relative ts ss
                  else normalize_fragments original relative (''..'' # acc) ss)"
  by simp

lemma normalize_fragments_keep:
  "s \<noteq> ''.'' \<Longrightarrow> s \<noteq> [] \<Longrightarrow> s \<noteq> ''..'' \<Longrightarrow>
   normalize_fragments original relative acc (s # ss) =
     normalize_fragments original relative (s # acc) ss"
  by simp

lemma normalize_fragments_clean_absolute:
  assumes "normalize_fragments original False acc ss = Inr r"
    and "\<forall>f \<in> set acc. clean f" and "\<forall>f \<in> set ss. sep_free f"
  shows "\<forall>f \<in> set r. clean f"
  using assms
proof (induction ss arbitrary: acc)
  case Nil
  then show ?case by auto
next
  case (Cons s ss)
  from Cons.prems(3) have ss: "\<forall>f \<in> set ss. sep_free f" and s: "sep_free s" by simp_all
  consider (skip) "s = ''.'' \<or> s = []" | (up) "s = ''..''"
    | (keep) "s \<noteq> ''.''" "s \<noteq> []" "s \<noteq> ''..''"
    by blast
  then show ?case
  proof cases
    case skip
    from Cons.prems(1) have "normalize_fragments original False acc ss = Inr r"
      by (simp only: normalize_fragments_skip [OF skip])
    from Cons.IH [OF this Cons.prems(2) ss] show ?thesis .
  next
    case up
    show ?thesis
    proof (cases acc)
      case Nil
      with up Cons.prems(1) show ?thesis by (simp add: normalize_fragments_up)
    next
      case (Cons t ts)
      with Cons.prems(2) have "t \<noteq> ''..''" and ts: "\<forall>f \<in> set ts. clean f"
        by (auto simp: clean_def)
      with Cons up Cons.prems(1) have "normalize_fragments original False ts ss = Inr r"
        by (simp add: normalize_fragments_up)
      from Cons.IH [OF this ts ss] show ?thesis .
    qed
  next
    case keep
    from Cons.prems(1) have n: "normalize_fragments original False (s # acc) ss = Inr r"
      by (simp only: normalize_fragments_keep [OF keep])
    from keep s have "clean s" by (simp add: clean_def)
    with Cons.prems(2) have "\<forall>f \<in> set (s # acc). clean f" by simp
    from Cons.IH [OF n this ss] show ?thesis .
  qed
qed

lemma normalize_fragments_relative:
  assumes "normalize_fragments original True acc ss = Inr r"
    and "\<forall>f \<in> set acc. f \<noteq> [] \<and> sep_free f" and "\<forall>f \<in> set ss. sep_free f"
  shows "\<forall>f \<in> set r. f \<noteq> [] \<and> sep_free f"
  using assms
proof (induction ss arbitrary: acc)
  case Nil
  then show ?case by auto
next
  case (Cons s ss)
  from Cons.prems(3) have ss: "\<forall>f \<in> set ss. sep_free f" and s: "sep_free s" by simp_all
  consider (skip) "s = ''.'' \<or> s = []" | (up) "s = ''..''"
    | (keep) "s \<noteq> ''.''" "s \<noteq> []" "s \<noteq> ''..''"
    by blast
  then show ?case
  proof cases
    case skip
    from Cons.prems(1) have "normalize_fragments original True acc ss = Inr r"
      by (simp only: normalize_fragments_skip [OF skip])
    from Cons.IH [OF this Cons.prems(2) ss] show ?thesis .
  next
    case up
    from up s have s': "s \<noteq> [] \<and> sep_free s" by simp
    show ?thesis
    proof (cases acc)
      case Nil
      with up Cons.prems(1) have n: "normalize_fragments original True [s] ss = Inr r"
        by (simp add: normalize_fragments_up)
      from s' have "\<forall>f \<in> set [s]. f \<noteq> [] \<and> sep_free f" by simp
      from Cons.IH [OF n this ss] show ?thesis .
    next
      case (Cons t ts)
      with Cons.prems(2) have ts: "\<forall>f \<in> set ts. f \<noteq> [] \<and> sep_free f"
        by simp
      from s' Cons.prems(2) have sacc: "\<forall>f \<in> set (s # acc). f \<noteq> [] \<and> sep_free f"
        by simp
      show ?thesis
      proof (cases "t = ''..''")
        case True
        with Cons up Cons.prems(1) have "normalize_fragments original True (s # acc) ss = Inr r"
          by (simp add: normalize_fragments_up)
        from Cons.IH [OF this sacc ss] show ?thesis .
      next
        case False
        with Cons up Cons.prems(1) have "normalize_fragments original True ts ss = Inr r"
          by (simp add: normalize_fragments_up)
        from Cons.IH [OF this ts ss] show ?thesis .
      qed
    qed
  next
    case keep
    from Cons.prems(1) have n: "normalize_fragments original True (s # acc) ss = Inr r"
      by (simp only: normalize_fragments_keep [OF keep])
    from keep s Cons.prems(2) have "\<forall>f \<in> set (s # acc). f \<noteq> [] \<and> sep_free f" by simp
    from Cons.IH [OF n this ss] show ?thesis .
  qed
qed

lemma normalize_fragments_fixed:
  "\<forall>f \<in> set r. clean f \<Longrightarrow> normalize_fragments original False acc r = Inr (rev acc @ r)"
proof (induction r arbitrary: acc)
  case Nil
  then show ?case by simp
next
  case (Cons s r)
  then have k: "s \<noteq> ''.''" "s \<noteq> []" "s \<noteq> ''..''" and r: "\<forall>f \<in> set r. clean f"
    by (simp_all add: clean_def)
  from Cons.IH [OF r, of "s # acc"] show ?case
    by (simp only: normalize_fragments_keep [OF k]) simp
qed

lemma join_sep_Nil: "join_sep r = [] \<Longrightarrow> \<forall>f \<in> set r. f \<noteq> [] \<Longrightarrow> r = []"
  by (induction r rule: join_sep.induct) auto

lemma hd_join_sep: "r \<noteq> [] \<Longrightarrow> hd r \<noteq> [] \<Longrightarrow> hd (join_sep r) = hd (hd r)"
  by (induction r rule: join_sep.induct) auto

subsection \<open>Normalized absolute paths are fixed points\<close>

lemma windows_drive_slash: "\<not> windows_drive (CHR ''/'' # rest)"
  by (cases rest rule: windows_drive.cases) (simp_all add: is_letter_def)

lemma path_isAbsolute_iff: "path_isAbsolute p \<longleftrightarrow> (\<exists>rest. p = CHR ''/'' # rest)"
  by (cases p) (auto simp: path_isAbsolute_def startsWith_def)

lemma path_normalize_absolute_input:
  assumes "path_normalize (CHR ''/'' # rest) = Inr q"
  shows "q = ''/'' \<or> (\<exists>r. r \<noteq> [] \<and> (\<forall>f \<in> set r. clean f) \<and> q = CHR ''/'' # join_sep r)"
proof (cases "rest = []")
  case True
  with assms show ?thesis by (simp add: path_normalize_def)
next
  case False
  let ?x = "CHR ''/'' # rest"
  have sp: "split_path ?x = [] # split_path rest"
    by (simp add: isSep_def)
  from False have ne: "?x \<noteq> []" "?x \<noteq> ''.''" "?x \<noteq> ''/''" by simp_all
  from assms obtain r where
    r: "normalize_fragments ?x False [] (split_path rest) = Inr r"
    and q: "q = (if r = [] then ''/'' else CHR ''/'' # join_sep r)"
    unfolding path_normalize_def
    by (simp only: ne windows_drive_slash sp if_False Let_def list.sel simp_thms)
       (cases "normalize_fragments ?x False [] (split_path rest)"; simp)
  from normalize_fragments_clean_absolute [OF r] split_path_sep_free
  have "\<forall>f \<in> set r. clean f" by simp
  with q show ?thesis by (cases "r = []") auto
qed

lemma path_normalize_fixed:
  assumes "r \<noteq> []" and "\<forall>f \<in> set r. clean f"
  shows "path_normalize (CHR ''/'' # join_sep r) = Inr (CHR ''/'' # join_sep r)"
proof -
  let ?x = "CHR ''/'' # join_sep r"
  from assms have sf: "\<forall>f \<in> set r. sep_free f" and nn: "\<forall>f \<in> set r. f \<noteq> []"
    by (simp_all add: clean_def)
  from assms nn have j: "join_sep r \<noteq> []"
    using join_sep_Nil by blast
  then have ne: "?x \<noteq> []" "?x \<noteq> ''.''" "?x \<noteq> ''/''" by simp_all
  have sp: "split_path ?x = [] # r"
    using split_path_join_sep [OF assms(1) sf] by (simp add: isSep_def)
  have nf: "normalize_fragments ?x False [] r = Inr r"
    using normalize_fragments_fixed [OF assms(2), of ?x "[]"] by simp
  show ?thesis
    unfolding path_normalize_def
    by (simp only: ne windows_drive_slash sp if_False Let_def list.sel simp_thms nf bindE_Inr assms(1))
qed

lemma path_normalize_slash: "path_normalize ''/'' = Inr ''/''"
  by (simp add: path_normalize_def)

lemma path_normalize_absolute_fixed:
  assumes "path_normalize (CHR ''/'' # rest) = Inr q"
  shows "path_isAbsolute q \<and> path_normalize q = Inr q"
  using path_normalize_absolute_input [OF assms]
  by (auto simp: path_isAbsolute_iff path_normalize_slash path_normalize_fixed)

lemma path_normalize_cases:
  assumes "path_normalize x = Inr q"
  obtains (empty) "q = []"
    | (root) "q = ''/''"
    | (relative) r where "r \<noteq> []" "\<forall>f \<in> set r. f \<noteq> [] \<and> sep_free f" "q = join_sep r"
    | (absolute) r where "r \<noteq> []" "\<forall>f \<in> set r. clean f" "q = CHR ''/'' # join_sep r"
proof (cases "x = [] \<or> x = ''.'' \<or> x = ''/''")
  case True
  with assms have "q = [] \<or> q = ''/''"
    by (auto simp: path_normalize_def)
  with empty root show ?thesis by blast
next
  case False
  define p where "p = split_path (if windows_drive x
                            then CHR 0x5C # hd x # CHR 0x5C # drop 3 x else x)"
  from False have ne: "x \<noteq> []" "x \<noteq> ''.''" "x \<noteq> ''/''" by simp_all
  have pn: "p \<noteq> []" and psf: "\<forall>f \<in> set p. sep_free f"
    unfolding p_def using split_path_nonempty split_path_sep_free by blast+
  from assms have n: "bindE (normalize_fragments x (hd p \<noteq> []) [] (if hd p \<noteq> [] then p else tl p))
      (\<lambda>r. Inr (if r = [] then (if hd p \<noteq> [] then [] else ''/'')
                  else if hd p \<noteq> [] then join_sep r else CHR ''/'' # join_sep r)) = Inr q"
    unfolding path_normalize_def p_def [symmetric]
    by (simp only: ne if_False Let_def simp_thms)
  show ?thesis
  proof (cases "hd p \<noteq> []")
    case True
    with n obtain r where r: "normalize_fragments x True [] p = Inr r"
      and q: "q = (if r = [] then [] else join_sep r)"
      by (cases "normalize_fragments x True [] p") auto
    from normalize_fragments_relative [OF r] psf
    have "\<forall>f \<in> set r. f \<noteq> [] \<and> sep_free f" by simp
    with q empty relative show ?thesis by (cases "r = []") auto
  next
    case False
    with n obtain r where r: "normalize_fragments x False [] (tl p) = Inr r"
      and q: "q = (if r = [] then ''/'' else CHR ''/'' # join_sep r)"
      by (cases "normalize_fragments x False [] (tl p)") auto
    from psf pn have "\<forall>f \<in> set (tl p). sep_free f"
      by (cases p) auto
    with normalize_fragments_clean_absolute [OF r]
    have "\<forall>f \<in> set r. clean f" by simp
    with q root absolute show ?thesis by (cases "r = []") auto
  qed
qed

lemma join_sep_not_absolute:
  assumes "r \<noteq> []" and "\<forall>f \<in> set r. f \<noteq> [] \<and> sep_free f"
  shows "\<not> path_isAbsolute (join_sep r)"
proof
  assume "path_isAbsolute (join_sep r)"
  then obtain rest where j: "join_sep r = CHR ''/'' # rest"
    by (auto simp: path_isAbsolute_iff)
  from assms have h: "hd r \<noteq> []" "sep_free (hd r)" by (cases r; simp)+
  with hd_join_sep [OF assms(1) h(1)] j have "hd (hd r) = CHR ''/''" by simp
  with h show False by (cases "hd r") (auto simp: sep_free_def isSep_def)
qed

lemma path_normalize_idem_absolute:
  assumes "path_normalize x = Inr q" and "path_isAbsolute q"
  shows "path_normalize q = Inr q"
  using assms(1)
proof (cases rule: path_normalize_cases)
  case empty
  with assms(2) show ?thesis by (simp add: path_isAbsolute_iff)
next
  case root
  then show ?thesis by (simp add: path_normalize_slash)
next
  case (relative r)
  with assms(2) join_sep_not_absolute show ?thesis by blast
next
  case (absolute r)
  then show ?thesis by (simp add: path_normalize_fixed)
qed

lemma path_join_absolute:
  assumes "path_isAbsolute b" and "path_join b y = Inr r"
  shows "path_isAbsolute r \<and> path_normalize r = Inr r"
proof -
  from assms(1) obtain rest where b: "b = CHR ''/'' # rest"
    by (auto simp: path_isAbsolute_iff)
  with assms(2) have "path_normalize (CHR ''/'' # (rest @ ''/'' @ y)) = Inr r"
    by (simp add: path_join_def)
  then show ?thesis by (rule path_normalize_absolute_fixed)
qed

lemma cord_devkit_paths [simp]:
  "normalize_path (cord_devkit pr) = path_normalize"
  "isAbsolute (cord_devkit pr) = path_isAbsolute"
  "join (cord_devkit pr) = path_join"
  by (simp_all add: cord_devkit_def)

subsection \<open>Relative paths under an absolute base\<close>

lemma outcome_Inr [simp]: "outcome (Inr x) = Inr x"
  by (simp add: outcome_def)

lemma outcome_Inl [simp]: "outcome (Inl e) = Inl ()"
  by (simp add: outcome_def)

lemma outcome_eq_Inr: "outcome r = Inr x \<longleftrightarrow> r = Inr x"
  by (cases r) simp_all

lemma outcome_bindE:
  assumes "outcome m1 = outcome m2" and "\<And>a. outcome (f1 a) = outcome (f2 a)"
  shows "outcome (bindE m1 f1) = outcome (bindE m2 f2)"
  using assms by (cases m1; cases m2) simp_all

lemma fragment_cases:
  obtains (skip) "s = ''.'' \<or> s = []" | (up) "s = ''..''"
    | (keep) "s \<noteq> ''.''" "s \<noteq> []" "s \<noteq> ''..''"
  by blast

lemma normalize_fragments_original:
  "outcome (normalize_fragments o1 rel acc ss) = outcome (normalize_fragments o2 rel acc ss)"
proof (induction ss arbitrary: acc rel)
  case Nil
  show ?case by simp
next
  case (Cons s ss)
  show ?case
  proof (cases s rule: fragment_cases)
    case skip
    show ?thesis unfolding normalize_fragments_skip [OF skip] by (rule Cons.IH)
  next
    case up
    show ?thesis unfolding up normalize_fragments_up
      by (cases acc) (simp_all add: Cons.IH)
  next
    case keep
    show ?thesis unfolding normalize_fragments_keep [OF keep] by (rule Cons.IH)
  qed
qed

lemma normalize_fragments_append:
  "normalize_fragments original rel acc (xs @ ys) =
     bindE (normalize_fragments original rel acc xs)
       (\<lambda>a. normalize_fragments original rel (rev a) ys)"
proof (induction xs arbitrary: acc rel)
  case Nil
  show ?case by simp
next
  case (Cons s xs)
  show ?case
  proof (cases s rule: fragment_cases)
    case skip
    show ?thesis
      unfolding append_Cons normalize_fragments_skip [OF skip] by (rule Cons.IH)
  next
    case up
    show ?thesis unfolding up append_Cons normalize_fragments_up
      by (cases acc) (simp_all add: Cons.IH)
  next
    case keep
    show ?thesis
      unfolding append_Cons normalize_fragments_keep [OF keep] by (rule Cons.IH)
  qed
qed

lemma normalize_fragments_pop:
  assumes "t \<noteq> ''.''" "t \<noteq> []" "t \<noteq> ''..''"
  shows "normalize_fragments original rel acc (xs @ t # ''..'' # ys) =
         normalize_fragments original rel acc (xs @ ys)"
proof -
  have "normalize_fragments original rel a (t # ''..'' # ys) =
        normalize_fragments original rel a ys" for a
    unfolding normalize_fragments_keep [OF assms] normalize_fragments_up
    using assms(3) by simp
  then show ?thesis
    unfolding normalize_fragments_append [of original rel acc xs] by simp
qed

lemma normalize_fragments_drop_skip:
  assumes "s = ''.'' \<or> s = []"
  shows "normalize_fragments original rel acc (xs @ s # ys) =
         normalize_fragments original rel acc (xs @ ys)"
  unfolding normalize_fragments_append [of original rel acc xs]
    normalize_fragments_skip [OF assms] ..

lemma normalize_fragments_relative_then_absolute:
  assumes "normalize_fragments orig True racc ps = Inr r"
    and "\<forall>t \<in> set racc. t \<noteq> [] \<and> t \<noteq> ''.''"
  shows "outcome (normalize_fragments o1 False acc (rev racc @ ps)) =
         outcome (normalize_fragments o2 False acc r)"
  using assms
proof (induction ps arbitrary: racc)
  case Nil
  then have "r = rev racc" by simp
  then show ?case by (simp add: normalize_fragments_original [of o1 False acc _ o2])
next
  case (Cons s ps)
  show ?case
  proof (cases s rule: fragment_cases)
    case skip
    from Cons.prems(1) have "normalize_fragments orig True racc ps = Inr r"
      by (simp only: normalize_fragments_skip [OF skip])
    from Cons.IH [OF this Cons.prems(2)] show ?thesis
      by (simp only: normalize_fragments_drop_skip [OF skip])
  next
    case keep
    from Cons.prems(1) have n: "normalize_fragments orig True (s # racc) ps = Inr r"
      by (simp only: normalize_fragments_keep [OF keep])
    from keep Cons.prems(2) have "\<forall>t \<in> set (s # racc). t \<noteq> [] \<and> t \<noteq> ''.''" by simp
    from Cons.IH [OF n this] show ?thesis by simp
  next
    case up
    have dd: "\<forall>t \<in> set (''..'' # racc). t \<noteq> [] \<and> t \<noteq> ''.''"
      using Cons.prems(2) by simp
    show ?thesis
    proof (cases racc)
      case Nil
      with up Cons.prems(1) have n: "normalize_fragments orig True [''..''] ps = Inr r"
        by (simp add: normalize_fragments_up)
      from dd Nil have "\<forall>t \<in> set [''..'']. t \<noteq> [] \<and> t \<noteq> ''.''" by simp
      from Cons.IH [OF n this] Nil up show ?thesis by simp
    next
      case c: (Cons t ts)
      show ?thesis
      proof (cases "t = ''..''")
        case True
        with c up Cons.prems(1) have n: "normalize_fragments orig True (''..'' # racc) ps = Inr r"
          by (simp add: normalize_fragments_up)
        from Cons.IH [OF n dd] up show ?thesis by simp
      next
        case False
        with c up Cons.prems(1) have n: "normalize_fragments orig True ts ps = Inr r"
          by (simp add: normalize_fragments_up)
        from c Cons.prems(2) have ts: "\<forall>t \<in> set ts. t \<noteq> [] \<and> t \<noteq> ''.''"
          and t: "t \<noteq> ''.''" "t \<noteq> []"
          by simp_all
        have "normalize_fragments o1 False acc (rev racc @ s # ps) =
              normalize_fragments o1 False acc (rev ts @ t # ''..'' # ps)"
          by (simp add: c up)
        also have "\<dots> = normalize_fragments o1 False acc (rev ts @ ps)"
          by (rule normalize_fragments_pop [OF t False])
        finally show ?thesis using Cons.IH [OF n ts] by simp
      qed
    qed
  qed
qed

lemma split_path_append_sep:
  "isSep c \<Longrightarrow> split_path (x @ c # y) = split_path x @ split_path y"
proof (induction x)
  case Nil
  then show ?case by simp
next
  case (Cons a x)
  obtain s ss where sp: "split_path x = s # ss"
    using split_path_nonempty [of x] by (cases "split_path x") auto
  with Cons show ?case by simp
qed

lemma path_join_fragments:
  assumes "path_isAbsolute b"
  shows "path_join b y =
     bindE (normalize_fragments (b @ ''/'' @ y) False [] (tl (split_path b) @ split_path y))
       finish_absolute"
proof -
  from assms obtain rest where b: "b = CHR ''/'' # rest"
    by (auto simp: path_isAbsolute_iff)
  let ?x = "CHR ''/'' # rest @ CHR ''/'' # y"
  have ne: "?x \<noteq> []" "?x \<noteq> ''.''" "?x \<noteq> ''/''" by simp_all
  have sp: "split_path ?x = [] # (split_path rest @ split_path y)"
    using split_path_append_sep [of "CHR ''/''" rest y] by (simp add: isSep_def)
  have tl: "tl (split_path b) = split_path rest"
    by (simp add: b isSep_def)
  have "path_normalize ?x =
      bindE (normalize_fragments ?x False [] (split_path rest @ split_path y)) finish_absolute"
    unfolding path_normalize_def finish_absolute_def
    by (simp only: ne windows_drive_slash sp if_False Let_def list.sel simp_thms)
  then show ?thesis
    unfolding tl by (simp add: path_join_def b)
qed

lemma outcome_path_join:
  assumes "path_isAbsolute b"
    and "\<And>acc o1 o2. outcome (normalize_fragments o1 False acc (split_path y1)) =
                       outcome (normalize_fragments o2 False acc (split_path y2))"
  shows "outcome (path_join b y1) = outcome (path_join b y2)"
  unfolding path_join_fragments [OF assms(1)] normalize_fragments_append
  by (intro outcome_bindE normalize_fragments_original assms(2) refl)

lemma relative_fragments:
  assumes "path_normalize p = Inr q" and "\<not> path_isAbsolute q"
  shows "outcome (normalize_fragments o1 False acc (split_path p)) =
         outcome (normalize_fragments o2 False acc (split_path q))"
proof (cases "p = [] \<or> p = ''.''")
  case True
  with assms(1) have q: "q = []" by (auto simp: path_normalize_def)
  from True have "normalize_fragments o1 False acc (split_path p) =
      normalize_fragments o1 False acc []"
    by (auto simp: isSep_def)
  moreover have "normalize_fragments o2 False acc (split_path q) =
      normalize_fragments o2 False acc []"
    by (simp add: q)
  ultimately show ?thesis by simp
next
  case False
  then have ne: "p \<noteq> []" "p \<noteq> ''.''" by simp_all
  have nr: "p \<noteq> ''/''"
    using assms by (auto simp: path_normalize_def path_isAbsolute_iff)
  define ps where "ps = split_path (if windows_drive p
                            then CHR 0x5C # hd p # CHR 0x5C # drop 3 p else p)"
  have psf: "\<forall>f \<in> set ps. sep_free f"
    unfolding ps_def using split_path_sep_free by blast
  from assms(1) have n: "bindE (normalize_fragments p (hd ps \<noteq> []) [] (if hd ps \<noteq> [] then ps else tl ps))
      (\<lambda>r. Inr (if r = [] then (if hd ps \<noteq> [] then [] else ''/'')
                  else if hd ps \<noteq> [] then join_sep r else CHR ''/'' # join_sep r)) = Inr q"
    unfolding path_normalize_def ps_def [symmetric]
    by (simp only: ne nr if_False Let_def simp_thms)
  have rel: "hd ps \<noteq> []"
  proof
    assume "hd ps = []"
    with n have "path_isAbsolute q"
      by (cases "normalize_fragments p False [] (tl ps)")
         (auto simp: path_isAbsolute_iff split: if_splits)
    with assms(2) show False by simp
  qed
  have nd: "\<not> windows_drive p"
  proof
    assume "windows_drive p"
    then have "ps = split_path (CHR 0x5C # hd p # CHR 0x5C # drop 3 p)" by (simp add: ps_def)
    then have "hd ps = []" by (simp add: isSep_def)
    with rel show False by simp
  qed
  then have ps: "ps = split_path p" by (simp add: ps_def)
  from n rel obtain r where r: "normalize_fragments p True [] ps = Inr r"
    and q: "q = (if r = [] then [] else join_sep r)"
    by (cases "normalize_fragments p True [] ps") (auto split: if_splits)
  from normalize_fragments_relative [OF r] psf
  have rsf: "\<forall>f \<in> set r. f \<noteq> [] \<and> sep_free f" by simp
  have 1: "outcome (normalize_fragments o1 False acc ps) =
      outcome (normalize_fragments o2 False acc r)"
    using normalize_fragments_relative_then_absolute [OF r, of o1 acc o2] by simp
  have 2: "normalize_fragments o2 False acc (split_path q) = normalize_fragments o2 False acc r"
  proof (cases "r = []")
    case True
    with q show ?thesis by simp
  next
    case False
    with q rsf have "split_path q = r" by (simp add: split_path_join_sep)
    then show ?thesis by simp
  qed
  from 1 2 ps show ?thesis by simp
qed

subsection \<open>Resolution\<close>




end
